theory Spec2Isabelle
  imports Main "HOL-Library.Word"
begin

section \<open>Target data layout: sizes, alignments and offsets (lib/Target/TargetData.cpp)\<close>

text \<open>
  The development follows \<^verbatim>\<open>TargetData.cpp\<close>: the alignment table of a target
  descriptor (\<^verbatim>\<open>setAlignment\<close>, the table lookup \<^verbatim>\<open>getAlignment\<close>), the size and
  alignment of a type (\<^verbatim>\<open>getTypeSize\<close>, \<^verbatim>\<open>getAlignment\<close> on a type), the layout of
  a struct (\<^verbatim>\<open>StructLayout\<close>), the offset of an indexed address
  (\<^verbatim>\<open>getIndexedOffset\<close>), and the descriptor's textual form (\<^verbatim>\<open>init\<close>,
  \<^verbatim>\<open>getStringRepresentation\<close>).

  The fields of the descriptor are machine words: an \<^verbatim>\<open>unsigned char\<close> is an
  \<open>8 word\<close>, a \<^verbatim>\<open>short\<close> a \<open>16 word\<close> read as a signed number. Sizes and offsets
  are natural numbers with the wrap-around written out: \<^verbatim>\<open>unsigned\<close> is taken modulo
  \<open>2 ^ 32\<close> and \<^verbatim>\<open>uint64_t\<close> modulo \<open>2 ^ 64\<close>.
\<close>

subsection \<open>Machine integers\<close>

type_synonym uchar = "8 word"
type_synonym short = "16 word"

definition to_uchar :: "int \<Rightarrow> uchar" where
  "to_uchar x = word_of_int x"

definition to_unsigned :: "nat \<Rightarrow> nat" where
  "to_unsigned x = x mod 2 ^ 32"

definition to_uint64 :: "int \<Rightarrow> nat" where
  "to_uint64 x = nat (x mod 2 ^ 64)"

definition to_short :: "int \<Rightarrow> short" where
  "to_short x = word_of_int x"

definition to_int64 :: "int \<Rightarrow> int" where
  "to_int64 x = (x + 2 ^ 63) mod 2 ^ 64 - 2 ^ 63"

text \<open>Division of C integers truncates towards zero.\<close>

definition c_div :: "int \<Rightarrow> int \<Rightarrow> int" where
  "c_div a b = sgn a * sgn b * (\<bar>a\<bar> div \<bar>b\<bar>)"

subsection \<open>Alignment records\<close>

text \<open>
  \<^verbatim>\<open>AlignTypeEnum\<close> is declared in \<^verbatim>\<open>llvm/Target/TargetData.h\<close>. The fifth value stands
  for \<^verbatim>\<open>(AlignTypeEnum) -1\<close>, the kind of \<^verbatim>\<open>InvalidAlignmentElem\<close>, which is none of
  the four kinds.
\<close>

datatype AlignTypeEnum =
  INTEGER_ALIGN | FLOAT_ALIGN | PACKED_ALIGN | AGGREGATE_ALIGN | INVALID_ALIGN

text \<open>
  Modelled from the spec: the enumerators' values are in the header
  \<^verbatim>\<open>llvm/Target/TargetData.h\<close>, which is not among the sources. The spec and the
  comment of \<^verbatim>\<open>init\<close> write the kinds as the characters \<open>i\<close>, \<open>f\<close>, \<open>v\<close> and \<open>a\<close>;
  \<^verbatim>\<open>TargetAlignElem::dump\<close> writes \<^verbatim>\<open>AlignType\<close> itself for that character, and the
  comment of \<^verbatim>\<open>init\<close> lists the default table in the order a, f, i, v. So the value
  of a kind is the code of its character: \<open>a\<close> 97, \<open>f\<close> 102, \<open>i\<close> 105, \<open>v\<close> 118.
\<close>

fun AlignTypeEnum_value :: "AlignTypeEnum \<Rightarrow> int" where
  "AlignTypeEnum_value INTEGER_ALIGN = 105"
| "AlignTypeEnum_value FLOAT_ALIGN = 102"
| "AlignTypeEnum_value PACKED_ALIGN = 118"
| "AlignTypeEnum_value AGGREGATE_ALIGN = 97"
| "AlignTypeEnum_value INVALID_ALIGN = - 1"

record TargetAlignElem =
  AlignType :: AlignTypeEnum
  ABIAlign :: uchar
  PrefAlign :: uchar
  TypeBitWidth :: short

definition TargetAlignElem_get ::
  "AlignTypeEnum \<Rightarrow> uchar \<Rightarrow> uchar \<Rightarrow> short \<Rightarrow> TargetAlignElem" where
  "TargetAlignElem_get align_type abi_align pref_align bit_width =
     \<lparr>AlignType = align_type, ABIAlign = abi_align, PrefAlign = pref_align,
      TypeBitWidth = bit_width\<rparr>"

text \<open>\<^verbatim>\<open>TargetAlignElem::operator<\<close>: by kind, then by bit width.\<close>

definition elem_less :: "TargetAlignElem \<Rightarrow> TargetAlignElem \<Rightarrow> bool" where
  "elem_less lhs rhs \<longleftrightarrow>
     AlignTypeEnum_value (AlignType lhs) < AlignTypeEnum_value (AlignType rhs)
     \<or> (AlignType lhs = AlignType rhs
         \<and> sint (TypeBitWidth lhs) < sint (TypeBitWidth rhs))"

definition InvalidAlignmentElem :: TargetAlignElem where
  "InvalidAlignmentElem = TargetAlignElem_get INVALID_ALIGN 0 0 0"

text \<open>
  Modelled from the spec: \<^verbatim>\<open>validAlignment\<close> is declared in the missing header; it
  tests a record returned by the table lookup against \<^verbatim>\<open>InvalidAlignmentElem\<close>.
\<close>

definition validAlignment :: "TargetAlignElem \<Rightarrow> bool" where
  "validAlignment align \<longleftrightarrow> align \<noteq> InvalidAlignmentElem"

subsection \<open>The alignment table\<close>

text \<open>
  \<^verbatim>\<open>std::equal_range(...).first\<close> is the lower bound of the key: on a table sorted by
  \<^verbatim>\<open>operator<\<close> the first position whose record is not less than the key, and the
  end of the table when every record is less.
\<close>

definition lower_bound :: "TargetAlignElem list \<Rightarrow> TargetAlignElem \<Rightarrow> nat" where
  "lower_bound Alignments elt = length (takeWhile (\<lambda>e. elem_less e elt) Alignments)"

text \<open>
  Both \<^verbatim>\<open>setAlignment\<close> and the table lookup dereference the lower bound without
  comparing it with \<^verbatim>\<open>Alignments.end()\<close>. At the end the read leaves the table and
  yields whatever the storage behind the last record holds. That record is not
  determined by the program, so it is a parameter \<open>past\<close> of the model: \<open>past xs\<close> is
  the record found behind the table \<open>xs\<close>.
\<close>

type_synonym past_end = "TargetAlignElem list \<Rightarrow> TargetAlignElem"

definition deref :: "past_end \<Rightarrow> TargetAlignElem list \<Rightarrow> nat \<Rightarrow> TargetAlignElem" where
  "deref past Alignments I =
     (if I < length Alignments then Alignments ! I else past Alignments)"

text \<open>Storage behind the table that holds no record of the four kinds.\<close>

definition blank_past :: past_end where
  "blank_past Alignments = InvalidAlignmentElem"

definition insert_at :: "nat \<Rightarrow> 'a \<Rightarrow> 'a list \<Rightarrow> 'a list" where
  "insert_at I elt xs = take I xs @ elt # drop I xs"

text \<open>
  \<^verbatim>\<open>setAlignment\<close>. When the position is the end of the table and the record read
  there happens to carry the key, the two assignments land behind the table, which
  keeps its records.
\<close>

definition setAlignment ::
  "past_end \<Rightarrow> AlignTypeEnum \<Rightarrow> uchar \<Rightarrow> uchar \<Rightarrow> short \<Rightarrow> TargetAlignElem list
     \<Rightarrow> TargetAlignElem list" where
  "setAlignment past align_type abi_align pref_align bit_width Alignments =
     (let elt = TargetAlignElem_get align_type abi_align pref_align bit_width;
          I = lower_bound Alignments elt;
          cur = deref past Alignments I
      in if AlignType cur = align_type \<and> TypeBitWidth cur = bit_width
         then (if I < length Alignments
               then Alignments[I := cur\<lparr>ABIAlign := abi_align, PrefAlign := pref_align\<rparr>]
               else Alignments)
         else insert_at I elt Alignments)"

definition getAlignment ::
  "past_end \<Rightarrow> TargetAlignElem list \<Rightarrow> AlignTypeEnum \<Rightarrow> short \<Rightarrow> TargetAlignElem" where
  "getAlignment past Alignments align_type bit_width =
     (let I = lower_bound Alignments (TargetAlignElem_get align_type 0 0 bit_width)
      in deref past Alignments I)"

subsection \<open>The descriptor\<close>

record TargetData =
  LittleEndian :: bool
  PointerMemSize :: uchar
  PointerABIAlign :: uchar
  PointerPrefAlign :: uchar
  Alignments :: "TargetAlignElem list"

subsection \<open>Types\<close>

text \<open>
  The type system is a collaborator of this file. A type is given by what the code
  asks of it: its kind, the bit width of an integer or of a vector, the element type
  and the number of elements of an array, the fields of a struct. \<open>OpaqueTy\<close> stands
  for the kinds that have no size.
\<close>

datatype Type =
  VoidTy | LabelTy | FloatTy | DoubleTy
  | IntegerTy nat
  | PointerTy Type
  | ArrayTy Type nat
  | PackedTy Type nat
  | StructTy "Type list"
  | OpaqueTy

text \<open>
  Modelled from the spec: \<^verbatim>\<open>Type::isSized\<close> is declared in \<^verbatim>\<open>llvm/Type.h\<close>. The
  oracle of the spec gives a size to labels, pointers, void, floats, integers and
  vectors, and to arrays and structs of sized types.
\<close>

fun isSized :: "Type \<Rightarrow> bool" where
  "isSized OpaqueTy = False"
| "isSized (ArrayTy elt n) = isSized elt"
| "isSized (StructTy elems) = list_all isSized elems"
| "isSized _ = True"

datatype fault = AssertionFailed | DivisionByZero | Aborted

record StructLayout =
  StructSize :: nat
  StructAlignment :: nat
  MemberOffsets :: "nat list"

text \<open>
  The padding steps of the \<^verbatim>\<open>StructLayout\<close> constructor: before a field, and at
  the end of the struct. \<^verbatim>\<open>StructSize\<close> is a \<^verbatim>\<open>uint64_t\<close>.
\<close>

definition add_padding :: "nat \<Rightarrow> nat \<Rightarrow> nat" where
  "add_padding Size Align =
     (if Size mod Align \<noteq> 0 then ((Size div Align + 1) * Align) mod 2 ^ 64 else Size)"

definition place_element :: "nat \<Rightarrow> nat \<Rightarrow> StructLayout \<Rightarrow> StructLayout" where
  "place_element TyAlign TySize L =
     (let padded = add_padding (StructSize L) TyAlign
      in \<lparr>StructSize = (padded + TySize) mod 2 ^ 64,
          StructAlignment = max TyAlign (StructAlignment L),
          MemberOffsets = MemberOffsets L @ [padded]\<rparr>)"

definition finish_layout :: "StructLayout \<Rightarrow> StructLayout" where
  "finish_layout L =
     (let A = (if StructAlignment L = 0 then 1 else StructAlignment L)
      in L\<lparr>StructAlignment := A, StructSize := add_padding (StructSize L) A\<rparr>)"

definition integer_size :: "nat \<Rightarrow> fault + nat" where
  "integer_size BitWidth =
     (if BitWidth \<le> 8 then Inr 1
      else if BitWidth \<le> 16 then Inr 2
      else if BitWidth \<le> 32 then Inr 4
      else if BitWidth \<le> 64 then Inr 8
      else Inl AssertionFailed)"

text \<open>The table lookup at the end of \<^verbatim>\<open>getAlignment\<close> on a type.\<close>

definition lookup_alignment ::
  "past_end \<Rightarrow> TargetData \<Rightarrow> AlignTypeEnum \<Rightarrow> nat \<Rightarrow> bool \<Rightarrow> fault + nat" where
  "lookup_alignment past TD kind TypeSize abi_or_pref =
     (let elem = getAlignment past (Alignments TD) kind
                   (to_short (int ((TypeSize * 8) mod 2 ^ 64)))
      in if validAlignment elem
         then Inr (if abi_or_pref then unat (ABIAlign elem) else unat (PrefAlign elem))
         else Inl Aborted)"

text \<open>
  \<^verbatim>\<open>getTypeSize\<close>, \<^verbatim>\<open>getAlignment\<close> on a type (\<open>abi_or_pref\<close> is true for the ABI
  alignment) and the loop of the \<^verbatim>\<open>StructLayout\<close> constructor call one another. The
  layout cache of \<^verbatim>\<open>getStructLayout\<close> stores what the constructor computes, so a
  layout is modelled by the constructor's result.
\<close>

function getTypeSize :: "past_end \<Rightarrow> TargetData \<Rightarrow> Type \<Rightarrow> fault + nat"
  and getAlignment_Ty :: "past_end \<Rightarrow> TargetData \<Rightarrow> Type \<Rightarrow> bool \<Rightarrow> fault + nat"
  and StructLayout_loop ::
    "past_end \<Rightarrow> TargetData \<Rightarrow> Type list \<Rightarrow> StructLayout \<Rightarrow> fault + StructLayout"
where
  "getTypeSize past TD Ty =
     (if \<not> isSized Ty then Inl AssertionFailed
      else case Ty of
        LabelTy \<Rightarrow> Inr (unat (PointerMemSize TD))
      | PointerTy _ \<Rightarrow> Inr (unat (PointerMemSize TD))
      | ArrayTy elt NumElements \<Rightarrow>
          (case getTypeSize past TD elt of
             Inl e \<Rightarrow> Inl e
           | Inr Size \<Rightarrow>
               (case getAlignment_Ty past TD elt True of
                  Inl e \<Rightarrow> Inl e
                | Inr Alignment \<Rightarrow>
                    if Alignment = 0 then Inl DivisionByZero
                    else
                      let AlignedSize =
                            to_unsigned
                              ((to_uint64 (int Size + int Alignment - 1) div Alignment
                                  * Alignment) mod 2 ^ 64)
                      in Inr ((AlignedSize * NumElements) mod 2 ^ 64)))
      | StructTy elems \<Rightarrow>
          (case StructLayout_loop past TD elems
                  \<lparr>StructSize = 0, StructAlignment = 0, MemberOffsets = []\<rparr> of
             Inl e \<Rightarrow> Inl e
           | Inr L \<Rightarrow> Inr (StructSize (finish_layout L)))
      | IntegerTy BitWidth \<Rightarrow> integer_size BitWidth
      | VoidTy \<Rightarrow> Inr 1
      | FloatTy \<Rightarrow> Inr 4
      | DoubleTy \<Rightarrow> Inr 8
      | PackedTy _ BitWidth \<Rightarrow> Inr (BitWidth div 8)
      | OpaqueTy \<Rightarrow> Inl AssertionFailed)"
| "getAlignment_Ty past TD Ty abi_or_pref =
     (if \<not> isSized Ty then Inl AssertionFailed
      else case Ty of
        LabelTy \<Rightarrow> Inr (if abi_or_pref then unat (PointerABIAlign TD)
                      else unat (PointerPrefAlign TD))
      | PointerTy _ \<Rightarrow> Inr (if abi_or_pref then unat (PointerABIAlign TD)
                      else unat (PointerPrefAlign TD))
      | ArrayTy elt _ \<Rightarrow> getAlignment_Ty past TD elt abi_or_pref
      | StructTy elems \<Rightarrow>
          (case StructLayout_loop past TD elems
                  \<lparr>StructSize = 0, StructAlignment = 0, MemberOffsets = []\<rparr> of
             Inl e \<Rightarrow> Inl e
           | Inr L0 \<Rightarrow>
               let Layout = finish_layout L0;
                   elem = getAlignment past (Alignments TD) AGGREGATE_ALIGN 0
               in if \<not> validAlignment elem then Inl AssertionFailed
                  else if abi_or_pref
                  then Inr (if unat (ABIAlign elem) < StructAlignment Layout
                            then StructAlignment Layout mod 256
                            else unat (ABIAlign elem))
                  else Inr (if unat (PrefAlign elem) < StructAlignment Layout
                            then StructAlignment Layout mod 256
                            else unat (PrefAlign elem)))
      | IntegerTy _ \<Rightarrow>
          (case getTypeSize past TD Ty of
             Inl e \<Rightarrow> Inl e
           | Inr s \<Rightarrow> lookup_alignment past TD INTEGER_ALIGN s abi_or_pref)
      | VoidTy \<Rightarrow>
          (case getTypeSize past TD Ty of
             Inl e \<Rightarrow> Inl e
           | Inr s \<Rightarrow> lookup_alignment past TD INTEGER_ALIGN s abi_or_pref)
      | FloatTy \<Rightarrow>
          (case getTypeSize past TD Ty of
             Inl e \<Rightarrow> Inl e
           | Inr s \<Rightarrow> lookup_alignment past TD FLOAT_ALIGN s abi_or_pref)
      | DoubleTy \<Rightarrow>
          (case getTypeSize past TD Ty of
             Inl e \<Rightarrow> Inl e
           | Inr s \<Rightarrow> lookup_alignment past TD FLOAT_ALIGN s abi_or_pref)
      | PackedTy _ _ \<Rightarrow>
          (case getTypeSize past TD Ty of
             Inl e \<Rightarrow> Inl e
           | Inr s \<Rightarrow> lookup_alignment past TD PACKED_ALIGN s abi_or_pref)
      | OpaqueTy \<Rightarrow> Inl AssertionFailed)"
| "StructLayout_loop past TD [] L = Inr L"
| "StructLayout_loop past TD (Ty # Tys) L =
     (case getAlignment_Ty past TD Ty True of
        Inl e \<Rightarrow> Inl e
      | Inr TyAlign \<Rightarrow>
          (case getTypeSize past TD Ty of
             Inl e \<Rightarrow> Inl e
           | Inr s \<Rightarrow>
               if TyAlign = 0 then Inl DivisionByZero
               else StructLayout_loop past TD Tys
                      (place_element TyAlign (to_unsigned s) L)))"
  by pat_completeness auto
termination
  by (relation "measure (\<lambda>x. case x of
          Inl (_, _, Ty) \<Rightarrow> 3 * size Ty
        | Inr (Inl (_, _, Ty, _)) \<Rightarrow> 3 * size Ty + 1
        | Inr (Inr (_, _, Tys, _)) \<Rightarrow> 3 * size_list size Tys + 2)") auto

declare getTypeSize.simps [simp del]
declare getAlignment_Ty.simps [simp del]

definition StructLayout_ctor ::
  "past_end \<Rightarrow> TargetData \<Rightarrow> Type list \<Rightarrow> fault + StructLayout" where
  "StructLayout_ctor past TD elems =
     (case StructLayout_loop past TD elems
             \<lparr>StructSize = 0, StructAlignment = 0, MemberOffsets = []\<rparr> of
        Inl e \<Rightarrow> Inl e
      | Inr L \<Rightarrow> Inr (finish_layout L))"

definition getStructLayout ::
  "past_end \<Rightarrow> TargetData \<Rightarrow> Type list \<Rightarrow> fault + StructLayout" where
  "getStructLayout past TD elems = StructLayout_ctor past TD elems"

definition getABITypeAlignment :: "past_end \<Rightarrow> TargetData \<Rightarrow> Type \<Rightarrow> fault + nat" where
  "getABITypeAlignment past TD Ty = getAlignment_Ty past TD Ty True"

definition getPrefTypeAlignment :: "past_end \<Rightarrow> TargetData \<Rightarrow> Type \<Rightarrow> fault + nat" where
  "getPrefTypeAlignment past TD Ty = getAlignment_Ty past TD Ty False"

definition isInteger :: "Type \<Rightarrow> bool" where
  "isInteger Ty = (case Ty of IntegerTy _ \<Rightarrow> True | _ \<Rightarrow> False)"

definition getBitWidth :: "Type \<Rightarrow> nat" where
  "getBitWidth Ty = (case Ty of IntegerTy BitWidth \<Rightarrow> BitWidth | _ \<Rightarrow> 0)"

definition getTypeSizeInBits :: "past_end \<Rightarrow> TargetData \<Rightarrow> Type \<Rightarrow> fault + nat" where
  "getTypeSizeInBits past TD Ty =
     (if isInteger Ty then Inr (getBitWidth Ty)
      else case getTypeSize past TD Ty of
             Inl e \<Rightarrow> Inl e
           | Inr s \<Rightarrow> Inr ((s * 8) mod 2 ^ 64))"

subsection \<open>Indexed offsets\<close>

text \<open>
  An index is a value of the program under compilation: a constant integer, given by
  the bit width of its type and its bits read as an unsigned number, or anything
  else.
\<close>

datatype Value = ConstantInt nat nat | NonConstant

definition getZExtValue :: "nat \<Rightarrow> nat \<Rightarrow> nat" where
  "getZExtValue bits v = v mod 2 ^ bits"

definition getSExtValue :: "nat \<Rightarrow> nat \<Rightarrow> int" where
  "getSExtValue bits v =
     (let u = v mod 2 ^ bits
      in if bits \<noteq> 0 \<and> 2 ^ (bits - 1) \<le> u then int u - 2 ^ bits else int u)"

text \<open>The element type of a pointer, an array or a vector (\<^verbatim>\<open>cast<SequentialType>\<close>).\<close>

definition getElementType :: "Type \<Rightarrow> Type option" where
  "getElementType Ty =
     (case Ty of
        PointerTy elt \<Rightarrow> Some elt
      | ArrayTy elt _ \<Rightarrow> Some elt
      | PackedTy elt _ \<Rightarrow> Some elt
      | _ \<Rightarrow> None)"

text \<open>
  The loop of \<^verbatim>\<open>getIndexedOffset\<close>. The type iterator \<^verbatim>\<open>TI\<close> yields at each step the
  type that the step indexes, which is the type the loop keeps in \<^verbatim>\<open>Ty\<close>.
\<close>

fun getIndexedOffset_loop ::
  "past_end \<Rightarrow> TargetData \<Rightarrow> Type \<Rightarrow> Value list \<Rightarrow> nat \<Rightarrow> fault + nat" where
  "getIndexedOffset_loop past TD Ty [] Result = Inr Result"
| "getIndexedOffset_loop past TD Ty (Idx # Indices) Result =
     (case Ty of
        StructTy elems \<Rightarrow>
          (case Idx of
             NonConstant \<Rightarrow> Inl AssertionFailed
           | ConstantInt bits v \<Rightarrow>
               if bits \<noteq> 32 then Inl AssertionFailed
               else
                 let FieldNo = to_unsigned (getZExtValue bits v)
                 in (case getStructLayout past TD elems of
                       Inl e \<Rightarrow> Inl e
                     | Inr Layout \<Rightarrow>
                         if FieldNo < length elems
                         then getIndexedOffset_loop past TD (elems ! FieldNo) Indices
                                ((Result + MemberOffsets Layout ! FieldNo) mod 2 ^ 64)
                         else Inl AssertionFailed))
      | _ \<Rightarrow>
          (case getElementType Ty of
             None \<Rightarrow> Inl AssertionFailed
           | Some ElTy \<Rightarrow>
               (case Idx of
                  NonConstant \<Rightarrow> Inl AssertionFailed
                | ConstantInt bits v \<Rightarrow>
                    (case getTypeSize past TD ElTy of
                       Inl e \<Rightarrow> Inl e
                     | Inr s \<Rightarrow>
                         let arrayIdx = getSExtValue bits v
                         in getIndexedOffset_loop past TD ElTy Indices
                              (to_uint64 (int Result
                                 + to_int64 (arrayIdx * to_int64 (int s))))))))"

definition getIndexedOffset ::
  "past_end \<Rightarrow> TargetData \<Rightarrow> Type \<Rightarrow> Value list \<Rightarrow> fault + nat" where
  "getIndexedOffset past TD ptrTy Indices =
     (case ptrTy of
        PointerTy _ \<Rightarrow> getIndexedOffset_loop past TD ptrTy Indices 0
      | _ \<Rightarrow> Inl AssertionFailed)"

text \<open>
  The walk as the specification words it, with the offset a sum of integers: a
  pointer or sequential step descends to the element type and contributes the signed
  index times the size of that type; a struct step takes the constant 32-bit index
  \<open>f\<close> below the number of fields, contributes offset \<open>f\<close> of the layout and
  continues in field \<open>f\<close>.
\<close>

fun spec_walk :: "past_end \<Rightarrow> TargetData \<Rightarrow> Type \<Rightarrow> Value list \<Rightarrow> int option" where
  "spec_walk past TD cur_type [] = Some 0"
| "spec_walk past TD cur_type (idx # rest) =
     (case cur_type of
        StructTy elems \<Rightarrow>
          (case idx of
             ConstantInt bits f \<Rightarrow>
               if bits = 32 \<and> f mod 2 ^ 32 < length elems
               then (case getStructLayout past TD elems of
                       Inl e \<Rightarrow> None
                     | Inr L \<Rightarrow>
                         (case spec_walk past TD (elems ! (f mod 2 ^ 32)) rest of
                            None \<Rightarrow> None
                          | Some tail_offset \<Rightarrow> Some (int (MemberOffsets L ! (f mod 2 ^ 32)) + tail_offset)))
               else None
           | NonConstant \<Rightarrow> None)
      | _ \<Rightarrow>
          (case getElementType cur_type of
             None \<Rightarrow> None
           | Some elt \<Rightarrow>
               (case idx of
                  NonConstant \<Rightarrow> None
                | ConstantInt bits v \<Rightarrow>
                    (case getTypeSize past TD elt of
                       Inl e \<Rightarrow> None
                     | Inr s \<Rightarrow>
                         (case spec_walk past TD elt rest of
                            None \<Rightarrow> None
                          | Some tail_offset \<Rightarrow> Some (getSExtValue bits v * int s + tail_offset))))))"

definition spec_indexed_offset ::
  "past_end \<Rightarrow> TargetData \<Rightarrow> Type \<Rightarrow> Value list \<Rightarrow> int option" where
  "spec_indexed_offset past TD ptr_type indices =
     (case ptr_type of
        PointerTy _ \<Rightarrow> spec_walk past TD ptr_type indices
      | _ \<Rightarrow> None)"

subsection \<open>The configuration string\<close>

text \<open>
  Modelled from the spec: \<^verbatim>\<open>getToken\<close> is defined in \<^verbatim>\<open>lib/Support/StringExtras.cpp\<close>,
  which is not among the sources. The configuration string is a sequence of
  hyphen-delimited tokens, each token a sequence of colon-delimited fields:
  \<^verbatim>\<open>getToken\<close> skips the delimiters at the front of the source, returns the
  characters up to the next delimiter and leaves the rest in the source.
\<close>

definition getToken :: "string \<Rightarrow> string \<Rightarrow> string \<times> string" where
  "getToken Source Delimiters =
     (let s = dropWhile (\<lambda>c. c \<in> set Delimiters) Source
      in (takeWhile (\<lambda>c. c \<notin> set Delimiters) s, dropWhile (\<lambda>c. c \<notin> set Delimiters) s))"

text \<open>
  \<^verbatim>\<open>atoi\<close> of the C library: white space, an optional sign, decimal digits; 0 when
  no digit follows. The value is kept as an integer; C leaves it undefined when it
  does not fit an \<^verbatim>\<open>int\<close>.
\<close>

definition isspace :: "char \<Rightarrow> bool" where
  "isspace c \<longleftrightarrow> c \<in> set [CHR '' '', CHR 0x09, CHR 0x0A, CHR 0x0B, CHR 0x0C, CHR 0x0D]"

definition isdigit :: "char \<Rightarrow> bool" where
  "isdigit c \<longleftrightarrow> c \<in> set ''0123456789''"

definition digit_of :: "char \<Rightarrow> nat" where
  "digit_of c = length (takeWhile (\<lambda>d. d \<noteq> c) ''0123456789'')"

definition digit_char :: "nat \<Rightarrow> char" where
  "digit_char d = ''0123456789'' ! d"

fun digits_value :: "nat \<Rightarrow> string \<Rightarrow> nat" where
  "digits_value acc [] = acc"
| "digits_value acc (c # cs) =
     (if isdigit c then digits_value (acc * 10 + digit_of c) cs else acc)"

definition atoi :: "string \<Rightarrow> int" where
  "atoi str =
     (case dropWhile isspace str of
        [] \<Rightarrow> 0
      | c # cs \<Rightarrow>
          if c = CHR ''-'' then - int (digits_value 0 cs)
          else if c = CHR ''+'' then int (digits_value 0 cs)
          else int (digits_value 0 (c # cs)))"

text \<open>Decimal output of an integer by \<^verbatim>\<open>operator<<\<close>.\<close>

fun utostr :: "nat \<Rightarrow> string" where
  "utostr n =
     (if n < 10 then [digit_char n] else utostr (n div 10) @ [digit_char (n mod 10)])"

declare utostr.simps [simp del]

definition itostr :: "int \<Rightarrow> string" where
  "itostr i = (if i < 0 then CHR ''-'' # utostr (nat (- i)) else utostr (nat i))"

text \<open>
  Modelled from the spec: how \<^verbatim>\<open>operator<<\<close> writes the \<^verbatim>\<open>AlignType\<close> field depends on
  the declarations of the missing header. The spec's printer writes the kind
  character: \<^verbatim>\<open>i\<close>, \<^verbatim>\<open>f\<close>, \<^verbatim>\<open>v\<close> or \<^verbatim>\<open>a\<close>.
\<close>

fun AlignTypeEnum_char :: "AlignTypeEnum \<Rightarrow> char" where
  "AlignTypeEnum_char INTEGER_ALIGN = CHR ''i''"
| "AlignTypeEnum_char FLOAT_ALIGN = CHR ''f''"
| "AlignTypeEnum_char PACKED_ALIGN = CHR ''v''"
| "AlignTypeEnum_char AGGREGATE_ALIGN = CHR ''a''"
| "AlignTypeEnum_char INVALID_ALIGN = CHR 0xFF"

definition dump :: "TargetAlignElem \<Rightarrow> string" where
  "dump elem =
     AlignTypeEnum_char (AlignType elem) # itostr (sint (TypeBitWidth elem))
       @ '':'' @ itostr (int (unat (ABIAlign elem) * 8))
       @ '':'' @ itostr (int (unat (PrefAlign elem) * 8))"

definition getStringRepresentation :: "TargetData \<Rightarrow> string" where
  "getStringRepresentation TD =
     (if LittleEndian TD then ''e'' else ''E'')
       @ ''-p:'' @ itostr (int (unat (PointerMemSize TD) * 8))
       @ '':'' @ itostr (int (unat (PointerABIAlign TD) * 8))
       @ '':'' @ itostr (int (unat (PointerPrefAlign TD) * 8))
       @ concat (map (\<lambda>elem. ''-'' @ dump elem) (Alignments TD))"

text \<open>The default alignments that \<^verbatim>\<open>init\<close> sets, in the order of its ten calls.\<close>

definition default_alignments :: "(AlignTypeEnum \<times> uchar \<times> uchar \<times> short) list" where
  "default_alignments =
     [(INTEGER_ALIGN, 1, 1, 1), (INTEGER_ALIGN, 1, 1, 8), (INTEGER_ALIGN, 2, 2, 16),
      (INTEGER_ALIGN, 4, 4, 32), (INTEGER_ALIGN, 0, 8, 64),
      (FLOAT_ALIGN, 4, 4, 32), (FLOAT_ALIGN, 0, 8, 64),
      (PACKED_ALIGN, 8, 8, 64), (PACKED_ALIGN, 16, 16, 128),
      (AGGREGATE_ALIGN, 0, 0, 0)]"

definition set_defaults :: "past_end \<Rightarrow> TargetAlignElem list \<Rightarrow> TargetAlignElem list" where
  "set_defaults past A =
     foldl (\<lambda>A (align_type, abi_align, pref_align, bit_width).
              setAlignment past align_type abi_align pref_align bit_width A)
       A default_alignments"

text \<open>One round of the \<^verbatim>\<open>while\<close> loop of \<^verbatim>\<open>init\<close>, after the token is cut off.\<close>

definition process_token :: "past_end \<Rightarrow> string \<Rightarrow> TargetData \<Rightarrow> TargetData" where
  "process_token past token TD =
     (let (arg0, token1) = getToken token '':''
      in case arg0 of
           [] \<Rightarrow> TD
         | c # p \<Rightarrow>
             if c = CHR ''E'' then TD\<lparr>LittleEndian := False\<rparr>
             else if c = CHR ''e'' then TD\<lparr>LittleEndian := True\<rparr>
             else if c = CHR ''p'' then
               let (a1, token2) = getToken token1 '':'';
                   (a2, token3) = getToken token2 '':'';
                   (a3, token4) = getToken token3 '':'';
                   MemSize = to_uchar (c_div (atoi a1) 8);
                   ABI = to_uchar (c_div (atoi a2) 8);
                   Pref = to_uchar (c_div (atoi a3) 8)
               in TD\<lparr>PointerMemSize := MemSize, PointerABIAlign := ABI,
                     PointerPrefAlign := (if Pref = 0 then ABI else Pref)\<rparr>
             else if c = CHR ''i'' \<or> c = CHR ''v'' \<or> c = CHR ''f'' \<or> c = CHR ''a'' then
               let align_type =
                     (if c = CHR ''i'' then INTEGER_ALIGN
                      else if c = CHR ''f'' then FLOAT_ALIGN
                      else if c = CHR ''v'' then PACKED_ALIGN else AGGREGATE_ALIGN);
                   bit_width = to_short (atoi p);
                   (a1, token2) = getToken token1 '':'';
                   (a2, token3) = getToken token2 '':'';
                   abi_align = to_uchar (c_div (atoi a1) 8);
                   pref_align = to_uchar (c_div (atoi a2) 8)
               in TD\<lparr>Alignments :=
                       setAlignment past align_type abi_align
                         (if pref_align = 0 then abi_align else pref_align) bit_width
                         (Alignments TD)\<rparr>
             else TD)"

function parse_loop :: "past_end \<Rightarrow> string \<Rightarrow> TargetData \<Rightarrow> TargetData" where
  "parse_loop past temp TD =
     (if temp = [] then TD
      else parse_loop past (snd (getToken temp ''-''))
             (process_token past (fst (getToken temp ''-'')) TD))"
  by pat_completeness auto
termination
proof (relation "measure (\<lambda>(past, temp, TD). length temp)")
  show "wf (measure (\<lambda>(past, temp, TD). length temp))"
    by simp
next
  fix past :: past_end and temp :: string and TD :: TargetData
  assume ne: "temp \<noteq> []"
  let ?s = "dropWhile (\<lambda>c. c \<in> set ''-'') temp"
  have "length (dropWhile (\<lambda>c. c \<notin> set ''-'') ?s) < length temp"
  proof (cases "?s = []")
    case True
    then have "dropWhile (\<lambda>c. c \<notin> set ''-'') ?s = []"
      by (simp only: dropWhile.simps)
    then have "length (dropWhile (\<lambda>c. c \<notin> set ''-'') ?s) = 0"
      by (simp only: list.size)
    moreover from ne have "0 < length temp"
      by simp
    ultimately show ?thesis by linarith
  next
    case False
    then have "\<not> (hd ?s \<in> set ''-'')"
      using hd_dropWhile by blast
    then have "length (dropWhile (\<lambda>c. c \<notin> set ''-'') ?s)
                 = length (dropWhile (\<lambda>c. c \<notin> set ''-'') (tl ?s))"
      using False by (cases ?s) auto
    moreover have "length (dropWhile (\<lambda>c. c \<notin> set ''-'') (tl ?s)) \<le> length (tl ?s)"
      by (rule length_dropWhile_le)
    moreover have "length (tl ?s) < length ?s"
      using False by (cases ?s) auto
    moreover have "length ?s \<le> length temp"
      by (rule length_dropWhile_le)
    ultimately show ?thesis by linarith
  qed
  then show "((past, snd (getToken temp ''-''), process_token past (fst (getToken temp ''-'')) TD),
              (past, temp, TD)) \<in> measure (\<lambda>(past, temp, TD). length temp)"
    by (simp add: getToken_def Let_def)
qed

declare parse_loop.simps [simp del]

text \<open>
  The end of \<^verbatim>\<open>init\<close>: a 64-bit integer or double whose ABI alignment is still 0
  takes the pointer size for both alignments.
\<close>

definition cap_by_pointer :: "past_end \<Rightarrow> TargetData \<Rightarrow> TargetData" where
  "cap_by_pointer past TD =
     (let long_align = getAlignment past (Alignments TD) INTEGER_ALIGN 64;
          TD1 = (if ABIAlign long_align = 0
                 then TD\<lparr>Alignments :=
                          setAlignment past INTEGER_ALIGN (PointerMemSize TD)
                            (PointerMemSize TD) 64 (Alignments TD)\<rparr>
                 else TD);
          double_align = getAlignment past (Alignments TD1) FLOAT_ALIGN 64
      in if ABIAlign double_align = 0
         then TD1\<lparr>Alignments :=
                   setAlignment past FLOAT_ALIGN (PointerMemSize TD1)
                     (PointerMemSize TD1) 64 (Alignments TD1)\<rparr>
         else TD1)"

text \<open>\<^verbatim>\<open>init\<close> runs on a descriptor under construction, whose table is empty.\<close>

definition init :: "past_end \<Rightarrow> string \<Rightarrow> TargetData" where
  "init past TargetDescription =
     cap_by_pointer past
       (parse_loop past TargetDescription
          \<lparr>LittleEndian = False, PointerMemSize = 8, PointerABIAlign = 8,
           PointerPrefAlign = 8, Alignments = set_defaults past []\<rparr>)"

subsection \<open>The specification's vocabulary\<close>

text \<open>Rounding a size up to a multiple of an alignment, as the specification words it.\<close>

definition round_up :: "nat \<Rightarrow> nat \<Rightarrow> nat" where
  "round_up s a = ((s + a - 1) div a) * a"

definition power_of_two :: "nat \<Rightarrow> bool" where
  "power_of_two n \<longleftrightarrow> n \<in> set (map (\<lambda>k. 2 ^ k) [0..<Suc n])"

text \<open>
  The size in bits as the specification states it: the bit width of an integer whose
  width is not a power of two, eight times the size in bytes of any other type.
\<close>

definition spec_size_bits :: "past_end \<Rightarrow> TargetData \<Rightarrow> Type \<Rightarrow> fault + nat" where
  "spec_size_bits past TD T =
     (if isInteger T \<and> \<not> power_of_two (getBitWidth T) then Inr (getBitWidth T)
      else case getTypeSize past TD T of Inl e \<Rightarrow> Inl e | Inr s \<Rightarrow> Inr (8 * s))"

text \<open>
  The tokens of a configuration string, as the loop of \<^verbatim>\<open>init\<close> cuts them off one
  after the other. The string gets shorter with every token, so its length bounds
  the number of tokens.
\<close>

primrec tokens_upto :: "nat \<Rightarrow> string \<Rightarrow> string list" where
  "tokens_upto 0 temp = []"
| "tokens_upto (Suc n) temp =
     (if temp = [] then []
      else fst (getToken temp ''-'') # tokens_upto n (snd (getToken temp ''-'')))"

definition tokens :: "string \<Rightarrow> string list" where
  "tokens temp = tokens_upto (length temp) temp"

text \<open>The character that \<^verbatim>\<open>init\<close> switches on: the first one of the token's first field.\<close>

definition leading_char :: "string \<Rightarrow> char option" where
  "leading_char token = (case fst (getToken token '':'') of [] \<Rightarrow> None | c # p \<Rightarrow> Some c)"

definition known_leading :: "string \<Rightarrow> bool" where
  "known_leading token \<longleftrightarrow> leading_char token \<in> Some ` set ''Eepivfa''"

text \<open>A field that does not start, after white space and a sign, with a decimal digit.\<close>

definition non_numeric :: "string \<Rightarrow> bool" where
  "non_numeric field \<longleftrightarrow>
     (case dropWhile isspace field of
        [] \<Rightarrow> True
      | c # cs \<Rightarrow>
          if c = CHR ''-'' \<or> c = CHR ''+'' then (case cs of [] \<Rightarrow> True | d # ds \<Rightarrow> \<not> isdigit d)
          else \<not> isdigit c)"

text \<open>
  The alignments in bytes that a pointer token or an alignment token gives, as
  \<^verbatim>\<open>init\<close> reads them: the preferred alignment is either zero (and then copies the ABI
  alignment) or not below the ABI alignment.
\<close>

definition token_pref_ok :: "string \<Rightarrow> bool" where
  "token_pref_ok token \<longleftrightarrow>
     (let (arg0, token1) = getToken token '':'';
          (a1, token2) = getToken token1 '':'';
          (a2, token3) = getToken token2 '':'';
          (a3, token4) = getToken token3 '':''
      in case arg0 of
           [] \<Rightarrow> True
         | c # p \<Rightarrow>
             if c = CHR ''p''
             then to_uchar (c_div (atoi a3) 8) = 0
                  \<or> to_uchar (c_div (atoi a2) 8) \<le> to_uchar (c_div (atoi a3) 8)
             else if c = CHR ''i'' \<or> c = CHR ''v'' \<or> c = CHR ''f'' \<or> c = CHR ''a''
             then to_uchar (c_div (atoi a2) 8) = 0
                  \<or> to_uchar (c_div (atoi a1) 8) \<le> to_uchar (c_div (atoi a2) 8)
             else True)"

definition pref_ge_abi :: "TargetData \<Rightarrow> bool" where
  "pref_ge_abi TD \<longleftrightarrow>
     PointerABIAlign TD \<le> PointerPrefAlign TD
     \<and> list_all (\<lambda>e. ABIAlign e \<le> PrefAlign e) (Alignments TD)"

text \<open>The kind that \<^verbatim>\<open>init\<close> takes from the leading character of an alignment token.\<close>

definition align_type_of :: "char \<Rightarrow> AlignTypeEnum" where
  "align_type_of c =
     (if c = CHR ''i'' then INTEGER_ALIGN
      else if c = CHR ''f'' then FLOAT_ALIGN
      else if c = CHR ''v'' then PACKED_ALIGN else AGGREGATE_ALIGN)"

text \<open>
  What \<^verbatim>\<open>setAlignment\<close> does to a table when no read behind the table finds the key:
  the record is put at the first position whose record is not less, in place of a
  record with the same kind and bit width if there is one.
\<close>

fun upsert :: "TargetAlignElem \<Rightarrow> TargetAlignElem list \<Rightarrow> TargetAlignElem list" where
  "upsert elt [] = [elt]"
| "upsert elt (x # xs) =
     (if elem_less x elt then x # upsert elt xs
      else if AlignType x = AlignType elt \<and> TypeBitWidth x = TypeBitWidth elt then elt # xs
      else elt # x # xs)"

text \<open>
  The descriptors that \<^verbatim>\<open>init\<close> builds when no read behind the table finds a key: the
  table is sorted and holds records of the four kinds, among them the default
  entries; a preferred alignment is zero only where the ABI alignment is.
\<close>

definition has_entry :: "TargetAlignElem list \<Rightarrow> AlignTypeEnum \<Rightarrow> short \<Rightarrow> bool" where
  "has_entry xs k w \<longleftrightarrow> list_ex (\<lambda>e. AlignType e = k \<and> TypeBitWidth e = w) xs"

definition canonical :: "TargetData \<Rightarrow> bool" where
  "canonical TD \<longleftrightarrow>
     sorted_wrt elem_less (Alignments TD)
     \<and> list_all (\<lambda>e. AlignType e \<noteq> INVALID_ALIGN \<and> (PrefAlign e = 0 \<longrightarrow> ABIAlign e = 0))
          (Alignments TD)
     \<and> (PointerPrefAlign TD = 0 \<longrightarrow> PointerABIAlign TD = 0)
     \<and> list_all (\<lambda>(k, a, p, w). has_entry (Alignments TD) k w) default_alignments"

text \<open>
  The second token of the printed form, and one of the two steps that end \<^verbatim>\<open>init\<close>:
  the entry of kind \<open>k\<close> and width 64 takes the pointer size when its ABI alignment
  is zero.
\<close>

definition pointer_token :: "TargetData \<Rightarrow> string" where
  "pointer_token TD =
     ''p:'' @ itostr (int (unat (PointerMemSize TD) * 8))
       @ '':'' @ itostr (int (unat (PointerABIAlign TD) * 8))
       @ '':'' @ itostr (int (unat (PointerPrefAlign TD) * 8))"

definition cap_entry ::
  "past_end \<Rightarrow> uchar \<Rightarrow> AlignTypeEnum \<Rightarrow> TargetAlignElem list \<Rightarrow> TargetAlignElem list" where
  "cap_entry past P k xs =
     (if ABIAlign (getAlignment past xs k 64) = 0
      then upsert (TargetAlignElem_get k P P 64) xs else xs)"

section \<open>Properties\<close>

subsection \<open>Unfolding the size and alignment of a type\<close>

lemma uchar_less: "unat (x :: uchar) < 256"
  using unsigned_less [of x, where 'a = nat] by simp

lemma getTypeSize_not_sized: "\<not> isSized Ty \<Longrightarrow> getTypeSize past TD Ty = Inl AssertionFailed"
  by (simp add: getTypeSize.simps)

lemma getAlignment_Ty_not_sized:
  "\<not> isSized Ty \<Longrightarrow> getAlignment_Ty past TD Ty w = Inl AssertionFailed"
  by (simp add: getAlignment_Ty.simps)

lemma getTypeSize_IntegerTy: "getTypeSize past TD (IntegerTy bw) = integer_size bw"
  by (simp add: getTypeSize.simps)

lemma getTypeSize_ArrayTy:
  "getTypeSize past TD (ArrayTy elt n) =
     (case getTypeSize past TD elt of
        Inl e \<Rightarrow> Inl e
      | Inr Size \<Rightarrow>
          (case getAlignment_Ty past TD elt True of
             Inl e \<Rightarrow> Inl e
           | Inr Alignment \<Rightarrow>
               if Alignment = 0 then Inl DivisionByZero
               else Inr ((to_unsigned ((to_uint64 (int Size + int Alignment - 1) div Alignment
                                  * Alignment) mod 2 ^ 64) * n) mod 2 ^ 64)))"
  by (cases "isSized elt")
     (simp_all add: getTypeSize.simps [of _ _ "ArrayTy elt n"] getTypeSize_not_sized Let_def
        split: sum.splits)

lemma getAlignment_Ty_ArrayTy:
  "getAlignment_Ty past TD (ArrayTy elt n) w = getAlignment_Ty past TD elt w"
  by (cases "isSized elt")
     (simp_all add: getAlignment_Ty.simps [of _ _ "ArrayTy elt n"] getAlignment_Ty_not_sized)

lemma StructLayout_loop_sized:
  "StructLayout_loop past TD elems L = Inr L' \<Longrightarrow> list_all isSized elems"
proof (induction elems arbitrary: L)
  case Nil
  then show ?case by simp
next
  case (Cons Ty Tys)
  then show ?case
    by (cases "isSized Ty") (auto simp: getAlignment_Ty_not_sized split: sum.splits if_splits)
qed

lemma getStructLayout_loop:
  "getStructLayout past TD elems = Inr Layout \<longleftrightarrow>
     (\<exists>L0. StructLayout_loop past TD elems
              \<lparr>StructSize = 0, StructAlignment = 0, MemberOffsets = []\<rparr> = Inr L0
           \<and> Layout = finish_layout L0)"
  by (auto simp: getStructLayout_def StructLayout_ctor_def split: sum.splits)

lemma getTypeSize_StructTy:
  assumes "getStructLayout past TD elems = Inr L"
  shows "getTypeSize past TD (StructTy elems) = Inr (StructSize L)"
proof -
  from assms obtain L0 where L0: "StructLayout_loop past TD elems
       \<lparr>StructSize = 0, StructAlignment = 0, MemberOffsets = []\<rparr> = Inr L0"
    and fin: "L = finish_layout L0"
    by (auto simp: getStructLayout_loop)
  from L0 have "list_all isSized elems"
    by (rule StructLayout_loop_sized)
  with L0 fin show ?thesis
    by (simp add: getTypeSize.simps [of _ _ "StructTy elems"])
qed

lemma getAlignment_Ty_StructTy:
  assumes "getStructLayout past TD elems = Inr Layout"
  shows "getAlignment_Ty past TD (StructTy elems) abi_or_pref =
     (let elem = getAlignment past (Alignments TD) AGGREGATE_ALIGN 0
      in if \<not> validAlignment elem then Inl AssertionFailed
         else if abi_or_pref
         then Inr (if unat (ABIAlign elem) < StructAlignment Layout
                   then StructAlignment Layout mod 256 else unat (ABIAlign elem))
         else Inr (if unat (PrefAlign elem) < StructAlignment Layout
                   then StructAlignment Layout mod 256 else unat (PrefAlign elem)))"
proof -
  from assms obtain L0 where L0: "StructLayout_loop past TD elems
       \<lparr>StructSize = 0, StructAlignment = 0, MemberOffsets = []\<rparr> = Inr L0"
    and fin: "Layout = finish_layout L0"
    by (auto simp: getStructLayout_loop)
  from L0 have "list_all isSized elems"
    by (rule StructLayout_loop_sized)
  with L0 fin show ?thesis
    by (simp add: getAlignment_Ty.simps [of _ _ "StructTy elems"] Let_def)
qed

lemma getAlignment_Ty_StructTy_Inr:
  "getAlignment_Ty past TD (StructTy elems) w = Inr a \<Longrightarrow>
   \<exists>L. getStructLayout past TD elems = Inr L"
  by (auto simp: getAlignment_Ty.simps [of _ _ "StructTy elems"] getStructLayout_def
      StructLayout_ctor_def split: sum.splits if_splits)

lemma getAlignment_Ty_uchar: "getAlignment_Ty past TD Ty w = Inr a \<Longrightarrow> a < 256"
proof (induction Ty arbitrary: a)
  case (ArrayTy elt n)
  then show ?case
    by (simp add: getAlignment_Ty_ArrayTy)
next
  case (StructTy elems)
  then show ?case
    by (auto simp: getAlignment_Ty.simps [of _ _ "StructTy elems"] Let_def
        split: sum.splits if_splits intro: uchar_less)
qed (auto simp: getAlignment_Ty.simps lookup_alignment_def Let_def
      split: sum.splits if_splits intro: uchar_less)

subsection \<open>The default descriptor\<close>

lemma init_default:
  "init blank_past '''' =
     \<lparr>LittleEndian = False, PointerMemSize = 8, PointerABIAlign = 8, PointerPrefAlign = 8,
      Alignments =
        [TargetAlignElem_get AGGREGATE_ALIGN 0 0 0, TargetAlignElem_get FLOAT_ALIGN 4 4 32,
         TargetAlignElem_get FLOAT_ALIGN 8 8 64, TargetAlignElem_get INTEGER_ALIGN 1 1 1,
         TargetAlignElem_get INTEGER_ALIGN 1 1 8, TargetAlignElem_get INTEGER_ALIGN 2 2 16,
         TargetAlignElem_get INTEGER_ALIGN 4 4 32, TargetAlignElem_get INTEGER_ALIGN 8 8 64,
         TargetAlignElem_get PACKED_ALIGN 8 8 64, TargetAlignElem_get PACKED_ALIGN 16 16 128]\<rparr>"
  by code_simp

lemmas lookup_simps =
  lookup_alignment_def getAlignment_def lower_bound_def elem_less_def deref_def
  TargetAlignElem_get_def validAlignment_def InvalidAlignmentElem_def to_short_def
  blank_past_def

lemma default_i8:
  "getTypeSize blank_past (init blank_past '''') (IntegerTy 8) = Inr 1"
  "getAlignment_Ty blank_past (init blank_past '''') (IntegerTy 8) True = Inr 1"
  by (simp_all add: init_default getAlignment_Ty.simps getTypeSize_IntegerTy integer_size_def
      lookup_simps)

lemma default_i16:
  "getTypeSize blank_past (init blank_past '''') (IntegerTy 16) = Inr 2"
  "getAlignment_Ty blank_past (init blank_past '''') (IntegerTy 16) True = Inr 2"
  by (simp_all add: init_default getAlignment_Ty.simps getTypeSize_IntegerTy integer_size_def
      lookup_simps)

subsection \<open>Sizes in bits and sizes of arrays\<close>

text \<open>
  C7, as stated, fails: the size in bits of \<open>i1\<close>, whose width is the power of two
  \<open>2 ^ 0\<close>, is its bit width 1 and not eight times its size of one byte; and the size
  in bits of an array of \<open>2 ^ 61\<close> bytes wraps around to 0.
\<close>

theorem getTypeSizeInBits_counterexample:
  "getTypeSizeInBits blank_past (init blank_past '''') (IntegerTy 1)
     \<noteq> spec_size_bits blank_past (init blank_past '''') (IntegerTy 1)
   \<and> getTypeSizeInBits blank_past (init blank_past '''')
         (ArrayTy (IntegerTy 8) 2305843009213693952)
     \<noteq> spec_size_bits blank_past (init blank_past '''')
         (ArrayTy (IntegerTy 8) 2305843009213693952)"
  by (simp add: getTypeSizeInBits_def spec_size_bits_def isInteger_def getBitWidth_def
      power_of_two_def getTypeSize_IntegerTy integer_size_def getTypeSize_ArrayTy default_i8
      to_unsigned_def to_uint64_def)

text \<open>
  C7, amended: the size in bits of every integer type is its bit width, whether or
  not the width is a power of two; the size in bits of every other type is eight
  times its size in bytes, in 64-bit arithmetic.
\<close>

theorem getTypeSizeInBits_amended:
  "getTypeSizeInBits past TD T =
     (if isInteger T then Inr (getBitWidth T)
      else case getTypeSize past TD T of
             Inl e \<Rightarrow> Inl e
           | Inr s \<Rightarrow> Inr ((8 * s) mod 2 ^ 64))"
  by (simp add: getTypeSizeInBits_def mult.commute split: sum.splits)

lemma round_up_ge: "0 < a \<Longrightarrow> s \<le> round_up s a"
proof -
  assume a: "0 < a"
  have "s + a - 1 = (s + a - 1) div a * a + (s + a - 1) mod a"
    by simp
  moreover have "(s + a - 1) mod a < a"
    using a by simp
  ultimately show ?thesis
    unfolding round_up_def by linarith
qed

text \<open>
  C2, as stated, fails: an array of \<open>2 ^ 63\<close> elements of type \<open>i16\<close> (size 2,
  ABI alignment 2) has size 0, since the product \<open>2 ^ 64\<close> does not fit the 64-bit
  result.
\<close>

theorem getTypeSize_array_counterexample:
  "getTypeSize blank_past (init blank_past '''') (IntegerTy 16) = Inr 2
   \<and> getABITypeAlignment blank_past (init blank_past '''') (IntegerTy 16) = Inr 2
   \<and> getTypeSize blank_past (init blank_past '''') (ArrayTy (IntegerTy 16) 9223372036854775808)
       \<noteq> Inr (9223372036854775808 * round_up 2 2)"
  by (simp add: getABITypeAlignment_def getTypeSize_ArrayTy default_i16 to_unsigned_def
      to_uint64_def round_up_def)

text \<open>
  C2, amended: for every type \<open>T\<close> with size \<open>s\<close> and non-zero ABI alignment \<open>a\<close> and
  every element count \<open>n\<close>, when the stride \<open>round_up s a\<close> is below \<open>2 ^ 32\<close> and \<open>n\<close>
  times the stride is below \<open>2 ^ 64\<close>, the size of the array of \<open>n\<close> elements of \<open>T\<close>
  is \<open>n * round_up s a\<close>, and the stride is at least the element size.
\<close>

theorem getTypeSize_array:
  assumes "getTypeSize past TD T = Inr s"
    and "getABITypeAlignment past TD T = Inr a"
    and "a \<noteq> 0"
    and "round_up s a < 2 ^ 32"
    and "n * round_up s a < 2 ^ 64"
  shows "getTypeSize past TD (ArrayTy T n) = Inr (n * round_up s a) \<and> s \<le> round_up s a"
proof -
  from assms(3) have le: "s \<le> round_up s a"
    by (simp add: round_up_ge)
  from assms(2) have "a < 256"
    unfolding getABITypeAlignment_def by (rule getAlignment_Ty_uchar)
  with le assms(3,4) have "int s + int a - 1 < 2 ^ 64" and "0 \<le> int s + int a - 1"
    by simp_all
  then have "to_uint64 (int s + int a - 1) = s + a - 1"
    using assms(3) by (simp add: to_uint64_def nat_diff_distrib' nat_add_distrib)
  then have "to_uint64 (int s + int a - 1) div a * a = round_up s a"
    by (simp add: round_up_def)
  moreover from assms(4) have "round_up s a mod 2 ^ 64 = round_up s a"
    by simp
  ultimately have "to_unsigned ((to_uint64 (int s + int a - 1) div a * a) mod 2 ^ 64)
      = round_up s a"
    using assms(4) by (simp add: to_unsigned_def)
  with assms(1,2,3,5) have "getTypeSize past TD (ArrayTy T n) = Inr (n * round_up s a)"
    by (simp add: getTypeSize_ArrayTy getABITypeAlignment_def mult.commute)
  with le show ?thesis by simp
qed

theorem getTypeSize_array_witness:
  "getTypeSize blank_past (init blank_past '''') (ArrayTy (IntegerTy 16) 3) = Inr 6"
proof -
  have "getABITypeAlignment blank_past (init blank_past '''') (IntegerTy 16) = Inr 2"
    by (simp add: getABITypeAlignment_def default_i16)
  from getTypeSize_array [OF default_i16(1) this, of 3]
  show ?thesis by (simp add: round_up_def)
qed

subsection \<open>The alignment of a struct\<close>

lemma StructLayout_loop_alignment_bound:
  "StructLayout_loop past TD elems L = Inr L' \<Longrightarrow> StructAlignment L < 256 \<Longrightarrow>
   StructAlignment L' < 256"
proof (induction elems arbitrary: L)
  case Nil
  then show ?case by simp
next
  case (Cons Ty Tys)
  then show ?case
    by (auto simp: place_element_def Let_def split: sum.splits if_splits
        dest: getAlignment_Ty_uchar)
qed

lemma getStructLayout_alignment_bound:
  assumes "getStructLayout past TD elems = Inr L"
  shows "StructAlignment L < 256" and "0 < StructAlignment L"
proof -
  from assms obtain L0 where L0: "StructLayout_loop past TD elems
       \<lparr>StructSize = 0, StructAlignment = 0, MemberOffsets = []\<rparr> = Inr L0"
    and fin: "L = finish_layout L0"
    by (auto simp: getStructLayout_loop)
  from StructLayout_loop_alignment_bound [OF L0] have "StructAlignment L0 < 256"
    by simp
  with fin show "StructAlignment L < 256" and "0 < StructAlignment L"
    by (simp_all add: finish_layout_def Let_def)
qed

text \<open>
  C3: for a struct whose layout \<open>L\<close> is built, the alignment of either flavour is the
  flavour's alignment of the record that the table lookup for (AGGREGATE, 0) returns
  when that is not less than the layout's alignment, and the layout's alignment
  otherwise; so it is never less than the layout's alignment.
\<close>

theorem struct_alignment:
  assumes "getStructLayout past TD elems = Inr L"
    and "validAlignment (getAlignment past (Alignments TD) AGGREGATE_ALIGN 0)"
  shows "getAlignment_Ty past TD (StructTy elems) abi_or_pref =
           Inr (let elem = getAlignment past (Alignments TD) AGGREGATE_ALIGN 0;
                    which = (if abi_or_pref then unat (ABIAlign elem) else unat (PrefAlign elem))
                in if which < StructAlignment L then StructAlignment L else which)
         \<and> (\<forall>a. getAlignment_Ty past TD (StructTy elems) abi_or_pref = Inr a
                \<longrightarrow> StructAlignment L \<le> a)"
proof -
  from getStructLayout_alignment_bound(1) [OF assms(1)]
  have "StructAlignment L mod 256 = StructAlignment L"
    by simp
  with assms show ?thesis
    by (simp add: getAlignment_Ty_StructTy Let_def)
qed

lemma default_i32:
  "getTypeSize blank_past (init blank_past '''') (IntegerTy 32) = Inr 4"
  "getAlignment_Ty blank_past (init blank_past '''') (IntegerTy 32) True = Inr 4"
  by (simp_all add: init_default getAlignment_Ty.simps getTypeSize_IntegerTy integer_size_def
      lookup_simps)

lemma default_struct:
  "getStructLayout blank_past (init blank_past '''') [IntegerTy 16, IntegerTy 32]
     = Inr \<lparr>StructSize = 8, StructAlignment = 4, MemberOffsets = [0, 4]\<rparr>"
  by (simp add: getStructLayout_def StructLayout_ctor_def default_i16 default_i32
      place_element_def add_padding_def finish_layout_def to_unsigned_def Let_def)

theorem struct_alignment_witness:
  "getAlignment_Ty blank_past (init blank_past '''') (StructTy [IntegerTy 16, IntegerTy 32]) True
     = Inr 4"
proof -
  have "validAlignment
          (getAlignment blank_past (Alignments (init blank_past '''')) AGGREGATE_ALIGN 0)"
    by (simp add: init_default lookup_simps)
  from struct_alignment [OF default_struct this, of True]
  show ?thesis
    by (simp add: init_default lookup_simps)
qed

subsection \<open>The table lookup\<close>

lemma elem_less_asym: "elem_less a b \<Longrightarrow> \<not> elem_less b a"
  by (auto simp: elem_less_def)

lemma elem_less_irrefl: "\<not> elem_less a a"
  by (simp add: elem_less_def)

lemma deref_lower_bound:
  assumes "e0 \<in> set xs" and "\<not> elem_less e0 key"
  shows "lower_bound xs key < length xs"
    and "deref past xs (lower_bound xs key) = hd (dropWhile (\<lambda>e. elem_less e key) xs)"
proof -
  from assms have ne: "dropWhile (\<lambda>e. elem_less e key) xs \<noteq> []"
    by auto
  have "length (takeWhile (\<lambda>e. elem_less e key) xs) + length (dropWhile (\<lambda>e. elem_less e key) xs)
          = length xs"
    by (metis length_append takeWhile_dropWhile_id)
  with ne show lt: "lower_bound xs key < length xs"
    by (cases "dropWhile (\<lambda>e. elem_less e key) xs") (simp_all add: lower_bound_def)
  from ne have "xs ! length (takeWhile (\<lambda>e. elem_less e key) xs)
                  = hd (dropWhile (\<lambda>e. elem_less e key) xs)"
    by (simp add: hd_dropWhile hd_drop_conv_nth dropWhile_eq_drop)
  with lt show "deref past xs (lower_bound xs key) = hd (dropWhile (\<lambda>e. elem_less e key) xs)"
    by (simp add: deref_def lower_bound_def)
qed

text \<open>
  C6, as stated, fails for a key that is greater than every record: the default
  table ends with the record of \<open>v128\<close>, so the lower bound of (VECTOR, 129), which
  has no entry, is the end of the table, and the lookup returns no record of the
  table.
\<close>

theorem getAlignment_counterexample:
  "lower_bound (Alignments (init blank_past '''')) (TargetAlignElem_get PACKED_ALIGN 0 0 129)
     = length (Alignments (init blank_past ''''))
   \<and> getAlignment blank_past (Alignments (init blank_past '''')) PACKED_ALIGN 129
       \<notin> set (Alignments (init blank_past ''''))"
  by (simp add: init_default lookup_simps)

text \<open>
  C6, amended: for every table sorted by the order of the records and every key for
  which the table holds a record not less than the key, the lookup returns a record
  of the table that is not less than the key and that no other such record precedes:
  the first record at or after the key. In particular the lookup of (INTEGER, 24) in
  the default table returns the record of \<open>i32\<close>.
\<close>

theorem getAlignment_first_not_less:
  assumes "sorted_wrt elem_less xs"
    and "e0 \<in> set xs"
    and "\<not> elem_less e0 (TargetAlignElem_get align_type 0 0 bit_width)"
  shows "getAlignment past xs align_type bit_width \<in> set xs
         \<and> \<not> elem_less (getAlignment past xs align_type bit_width)
               (TargetAlignElem_get align_type 0 0 bit_width)
         \<and> (\<forall>e \<in> set xs. \<not> elem_less e (TargetAlignElem_get align_type 0 0 bit_width)
               \<longrightarrow> \<not> elem_less e (getAlignment past xs align_type bit_width))"
proof -
  let ?key = "TargetAlignElem_get align_type 0 0 bit_width"
  let ?P = "\<lambda>e. elem_less e ?key"
  from assms(2,3) have ne: "dropWhile ?P xs \<noteq> []"
    by auto
  then obtain r rs where drop: "dropWhile ?P xs = r # rs"
    by (cases "dropWhile ?P xs") auto
  from deref_lower_bound(2) [OF assms(2,3)] drop
  have res: "getAlignment past xs align_type bit_width = r"
    by (simp add: getAlignment_def)
  have split: "xs = takeWhile ?P xs @ r # rs"
    using drop by (metis takeWhile_dropWhile_id)
  have r_in: "r \<in> set xs"
    by (subst split) simp
  have r_not: "\<not> elem_less r ?key"
    using drop by (metis dropWhile_eq_Cons_conv)
  have least: "\<not> elem_less e r" if "e \<in> set xs" and "\<not> elem_less e ?key" for e
  proof -
    from that(1) split have "e \<in> set (takeWhile ?P xs) \<or> e = r \<or> e \<in> set rs"
      by (metis Un_iff set_ConsD set_append)
    then show ?thesis
    proof (elim disjE)
      assume "e \<in> set (takeWhile ?P xs)"
      then have "elem_less e ?key"
        by (rule set_takeWhileD [THEN conjunct2])
      with that(2) show ?thesis by simp
    next
      assume "e = r"
      then show ?thesis by (simp add: elem_less_irrefl)
    next
      assume "e \<in> set rs"
      moreover from assms(1) have "sorted_wrt elem_less (takeWhile ?P xs @ r # rs)"
        using split by simp
      ultimately have "elem_less r e"
        by (simp add: sorted_wrt_append)
      then show ?thesis by (rule elem_less_asym)
    qed
  qed
  from res r_in r_not least show ?thesis
    by simp
qed

theorem getAlignment_first_not_less_witness:
  "getAlignment blank_past (Alignments (init blank_past '''')) INTEGER_ALIGN 24
     \<in> set (Alignments (init blank_past ''''))
   \<and> getAlignment blank_past (Alignments (init blank_past '''')) INTEGER_ALIGN 24
       = TargetAlignElem_get INTEGER_ALIGN 4 4 32"
proof -
  have "sorted_wrt elem_less (Alignments (init blank_past ''''))"
    by (simp add: init_default elem_less_def TargetAlignElem_get_def)
  moreover have "TargetAlignElem_get INTEGER_ALIGN 4 4 32 \<in> set (Alignments (init blank_past ''''))"
    by (simp add: init_default)
  moreover have "\<not> elem_less (TargetAlignElem_get INTEGER_ALIGN 4 4 32)
                     (TargetAlignElem_get INTEGER_ALIGN 0 0 24)"
    by (simp add: elem_less_def TargetAlignElem_get_def)
  ultimately have "getAlignment blank_past (Alignments (init blank_past '''')) INTEGER_ALIGN 24
     \<in> set (Alignments (init blank_past ''''))"
    using getAlignment_first_not_less [of "Alignments (init blank_past '''')"
        "TargetAlignElem_get INTEGER_ALIGN 4 4 32" INTEGER_ALIGN 24 blank_past]
    by blast
  moreover have "getAlignment blank_past (Alignments (init blank_past '''')) INTEGER_ALIGN 24
       = TargetAlignElem_get INTEGER_ALIGN 4 4 32"
    by (simp add: init_default lookup_simps)
  ultimately show ?thesis by simp
qed

text \<open>
  C10 fails on the first call that \<open>init\<close> makes: the table is empty, so the lower
  bound of the key is the end of the table, and what \<open>setAlignment\<close> does depends on
  the record it reads there. With a record of kind INTEGER and width 1 behind the
  table the default for \<open>i1\<close> is never entered.
\<close>

theorem setAlignment_reads_past_end:
  "lower_bound [] (TargetAlignElem_get INTEGER_ALIGN 1 1 1) = length ([] :: TargetAlignElem list)
   \<and> setAlignment blank_past INTEGER_ALIGN 1 1 1 [] = [TargetAlignElem_get INTEGER_ALIGN 1 1 1]
   \<and> setAlignment (\<lambda>xs. TargetAlignElem_get INTEGER_ALIGN 7 7 1) INTEGER_ALIGN 1 1 1 [] = []
   \<and> length (Alignments (init (\<lambda>xs. TargetAlignElem_get INTEGER_ALIGN 7 7 1) '''')) = 9
   \<and> length (Alignments (init blank_past '''')) = 10"
  by code_simp

text \<open>
  C1 fails on a struct with a field of \<open>2 ^ 32\<close> bytes: the constructor keeps the
  low 32 bits of the field's size, so the next field is placed at offset 0 as well.
\<close>

theorem StructLayout_truncates_size:
  "getTypeSize blank_past (init blank_past '''') (ArrayTy (IntegerTy 8) 4294967296)
     = Inr 4294967296
   \<and> getStructLayout blank_past (init blank_past '''')
         [ArrayTy (IntegerTy 8) 4294967296, IntegerTy 8]
     = Inr \<lparr>StructSize = 1, StructAlignment = 1, MemberOffsets = [0, 0]\<rparr>"
proof -
  have s: "getTypeSize blank_past (init blank_past '''') (ArrayTy (IntegerTy 8) 4294967296)
     = Inr 4294967296"
    by (simp add: getTypeSize_ArrayTy default_i8 to_unsigned_def to_uint64_def)
  have a: "getAlignment_Ty blank_past (init blank_past '''')
             (ArrayTy (IntegerTy 8) 4294967296) True = Inr 1"
    by (simp add: getAlignment_Ty_ArrayTy default_i8)
  show ?thesis
    by (simp add: s a getStructLayout_def StructLayout_ctor_def default_i8
      place_element_def add_padding_def finish_layout_def to_unsigned_def Let_def)
qed

text \<open>
  With the size of each field taken modulo \<open>2 ^ 32\<close>, as the constructor does, the layout
  of a struct of at most 4294967040 fields has the four properties: no sum wraps.
\<close>

lemma add_padding_exact:
  assumes "0 < A" and "A < 256" and "S + 255 < 18446744073709551616"
  shows "A dvd add_padding S A" and "S \<le> add_padding S A" and "add_padding S A < S + A"
proof -
  have eq: "(S div A + 1) * A = S - S mod A + A"
    by (simp add: algebra_simps minus_mod_eq_mult_div [symmetric])
  have le: "S mod A \<le> S"
    by (rule mod_less_eq_dividend)
  have lt: "S mod A < A"
    using assms(1) by simp
  have small: "(S div A + 1) * A < 18446744073709551616"
    unfolding eq using assms le lt by linarith
  have val: "add_padding S A = (if S mod A \<noteq> 0 then (S div A + 1) * A else S)"
    using small by (simp add: add_padding_def)
  show "A dvd add_padding S A"
    unfolding val by (simp add: mod_eq_0_iff_dvd)
  have "S \<le> S - S mod A + A" and "S mod A \<noteq> 0 \<Longrightarrow> S - S mod A + A < S + A"
    using mod_less_eq_dividend [of S A] lt by linarith+
  then show "S \<le> add_padding S A" and "add_padding S A < S + A"
    unfolding val eq using assms(1) by (cases "S mod A = 0"; simp)+
qed

lemma to_unsigned_less: "to_unsigned s < 4294967296"
  by (simp add: to_unsigned_def)

lemma StructLayout_loop_offsets:
  assumes "StructLayout_loop past TD Tys L = Inr L'"
    and "StructSize L + length Tys * 4294967551 + 255 < 18446744073709551616"
  shows "\<exists>os. MemberOffsets L' = MemberOffsets L @ os \<and> length os = length Tys
      \<and> StructSize L \<le> StructSize L'
      \<and> StructSize L' \<le> StructSize L + length Tys * 4294967551
      \<and> (Tys \<noteq> [] \<longrightarrow> os ! 0 < StructSize L + 255)
      \<and> (\<forall>i < length Tys. \<exists>A s.
            getAlignment_Ty past TD (Tys ! i) True = Inr A
            \<and> getTypeSize past TD (Tys ! i) = Inr s
            \<and> A dvd os ! i \<and> StructSize L \<le> os ! i
            \<and> os ! i + to_unsigned s
                 \<le> (if Suc i < length Tys then os ! Suc i else StructSize L'))"
  using assms
proof (induction Tys arbitrary: L)
  case Nil
  then show ?case by simp
next
  case (Cons Ty Tys)
  from Cons.prems(1) obtain A s where A: "getAlignment_Ty past TD Ty True = Inr A"
    and s: "getTypeSize past TD Ty = Inr s" and A0: "0 < A"
    and loop: "StructLayout_loop past TD Tys (place_element A (to_unsigned s) L) = Inr L'"
    by (auto split: sum.splits if_splits)
  let ?P = "add_padding (StructSize L) A"
  let ?L1 = "place_element A (to_unsigned s) L"
  from A have A256: "A < 256"
    by (rule getAlignment_Ty_uchar)
  from Cons.prems(2) have room: "StructSize L + 255 < 18446744073709551616"
    by simp
  note pad = add_padding_exact [OF A0 A256 room]
  have u: "to_unsigned s < 4294967296"
    by (rule to_unsigned_less)
  have size1: "StructSize ?L1 = ?P + to_unsigned s"
    using pad(3) A256 u Cons.prems(2) by (simp add: place_element_def Let_def)
  have offs1: "MemberOffsets ?L1 = MemberOffsets L @ [?P]"
    by (simp add: place_element_def Let_def)
  have bound1: "StructSize ?L1 + length Tys * 4294967551 + 255 < 18446744073709551616"
    unfolding size1 using pad(3) A256 u Cons.prems(2) by simp
  from Cons.IH [OF loop bound1] obtain os where
    os: "MemberOffsets L' = MemberOffsets ?L1 @ os" "length os = length Tys"
      "StructSize ?L1 \<le> StructSize L'"
      "StructSize L' \<le> StructSize ?L1 + length Tys * 4294967551"
    and each: "\<And>i. i < length Tys \<Longrightarrow> \<exists>A s.
            getAlignment_Ty past TD (Tys ! i) True = Inr A
            \<and> getTypeSize past TD (Tys ! i) = Inr s
            \<and> A dvd os ! i \<and> StructSize ?L1 \<le> os ! i
            \<and> os ! i + to_unsigned s
                 \<le> (if Suc i < length Tys then os ! Suc i else StructSize L')"
    by blast
  have grow: "StructSize L \<le> StructSize ?L1"
    unfolding size1 using pad(2) by simp
  have first: "?P + to_unsigned s \<le> (if Suc 0 < length (Ty # Tys) then os ! 0 else StructSize L')"
  proof (cases Tys)
    case Nil
    with os(3) size1 show ?thesis by simp
  next
    case (Cons T Ts)
    with each [of 0] size1 show ?thesis by auto
  qed
  have step: "\<exists>A s.
            getAlignment_Ty past TD ((Ty # Tys) ! i) True = Inr A
            \<and> getTypeSize past TD ((Ty # Tys) ! i) = Inr s
            \<and> A dvd (?P # os) ! i \<and> StructSize L \<le> (?P # os) ! i
            \<and> (?P # os) ! i + to_unsigned s
                 \<le> (if Suc i < length (Ty # Tys) then (?P # os) ! Suc i else StructSize L')"
    if "i < length (Ty # Tys)" for i
  proof (cases i)
    case 0
    with A s pad first show ?thesis by (auto split: if_splits)
  next
    case (Suc j)
    with that have j: "j < length Tys" by simp
    from each [OF j] obtain B t where
      "getAlignment_Ty past TD (Tys ! j) True = Inr B" "getTypeSize past TD (Tys ! j) = Inr t"
      "B dvd os ! j" "StructSize ?L1 \<le> os ! j"
      "os ! j + to_unsigned t \<le> (if Suc j < length Tys then os ! Suc j else StructSize L')"
      by blast
    with grow Suc show ?thesis
      by auto
  qed
  have "MemberOffsets L' = MemberOffsets L @ (?P # os)"
    using os(1) offs1 by simp
  moreover have "length (?P # os) = length (Ty # Tys)"
    using os(2) by simp
  moreover have "StructSize L \<le> StructSize L'"
    using grow os(3) by simp
  moreover have "StructSize L' \<le> StructSize L + length (Ty # Tys) * 4294967551"
    using os(4) size1 pad(3) A256 u by simp
  moreover have "(?P # os) ! 0 < StructSize L + 255"
    using pad(3) A256 by simp
  ultimately show ?case
    using step by blast
qed

lemma getStructLayout_in_range:
  assumes "getStructLayout past TD elems = Inr L"
    and "length elems \<le> 4294967040"
  shows "length (MemberOffsets L) = length elems"
    and "elems \<noteq> [] \<Longrightarrow> MemberOffsets L ! 0 = 0"
    and "i < length elems \<Longrightarrow> \<exists>A s.
            getABITypeAlignment past TD (elems ! i) = Inr A
            \<and> getTypeSize past TD (elems ! i) = Inr s
            \<and> A dvd MemberOffsets L ! i
            \<and> MemberOffsets L ! i + to_unsigned s
                 \<le> (if Suc i < length elems then MemberOffsets L ! Suc i else StructSize L)"
    and "StructAlignment L dvd StructSize L"
proof -
  let ?L = "\<lparr>StructSize = 0, StructAlignment = 0, MemberOffsets = []\<rparr>"
  from assms(1) obtain L0 where L0: "StructLayout_loop past TD elems ?L = Inr L0"
    and fin: "L = finish_layout L0"
    by (auto simp: getStructLayout_loop)
  have bound: "StructSize ?L + length elems * 4294967551 + 255 < 18446744073709551616"
    using assms(2) by simp
  from StructLayout_loop_offsets [OF L0 bound] obtain os where
    os: "MemberOffsets L0 = os" "length os = length elems"
      "StructSize L0 \<le> length elems * 4294967551"
      "elems \<noteq> [] \<longrightarrow> os ! 0 < 255"
    and each: "\<And>i. i < length elems \<Longrightarrow> \<exists>A s.
            getAlignment_Ty past TD (elems ! i) True = Inr A
            \<and> getTypeSize past TD (elems ! i) = Inr s
            \<and> A dvd os ! i
            \<and> os ! i + to_unsigned s
                 \<le> (if Suc i < length elems then os ! Suc i else StructSize L0)"
    by auto
  let ?A = "if StructAlignment L0 = 0 then 1 else StructAlignment L0"
  have offs: "MemberOffsets L = os" and al: "StructAlignment L = ?A"
    and sz: "StructSize L = add_padding (StructSize L0) ?A"
    using fin os(1) by (simp_all add: finish_layout_def Let_def)
  from StructLayout_loop_alignment_bound [OF L0] have A256: "?A < 256" and A0: "0 < ?A"
    by simp_all
  have room: "StructSize L0 + 255 < 18446744073709551616"
    using os(3) assms(2) by simp
  note pad = add_padding_exact [OF A0 A256 room]
  show "length (MemberOffsets L) = length elems"
    using offs os(2) by simp
  show "StructAlignment L dvd StructSize L"
    unfolding al sz by (rule pad(1))
  show "\<exists>A s. getABITypeAlignment past TD (elems ! i) = Inr A
            \<and> getTypeSize past TD (elems ! i) = Inr s
            \<and> A dvd MemberOffsets L ! i
            \<and> MemberOffsets L ! i + to_unsigned s
                 \<le> (if Suc i < length elems then MemberOffsets L ! Suc i else StructSize L)"
    if "i < length elems"
  proof -
    from each [OF that] obtain A s where
      "getAlignment_Ty past TD (elems ! i) True = Inr A" "getTypeSize past TD (elems ! i) = Inr s"
      "A dvd os ! i"
      "os ! i + to_unsigned s \<le> (if Suc i < length elems then os ! Suc i else StructSize L0)"
      by blast
    moreover have "StructSize L0 \<le> StructSize L"
      unfolding sz by (rule pad(2))
    ultimately show ?thesis
      unfolding offs getABITypeAlignment_def by (auto split: if_splits)
  qed
  show "MemberOffsets L ! 0 = 0" if "elems \<noteq> []"
  proof -
    from that obtain Ty Tys where e: "elems = Ty # Tys"
      by (cases elems) auto
    from L0 obtain A s where "0 < A"
      and "StructLayout_loop past TD Tys (place_element A (to_unsigned s) ?L) = Inr L0"
      unfolding e by (auto split: sum.splits if_splits)
    then have "StructLayout_loop past TD Tys
        \<lparr>StructSize = to_unsigned s, StructAlignment = A, MemberOffsets = [0]\<rparr> = Inr L0"
      using to_unsigned_less [of s] by (simp add: place_element_def add_padding_def Let_def)
    from StructLayout_loop_offsets [OF this] assms(2) e to_unsigned_less [of s]
    obtain os' where "MemberOffsets L0 = [0] @ os'"
      by auto
    then have "MemberOffsets L0 ! 0 = 0"
      by simp
    with offs os(1) show ?thesis
      by simp
  qed
qed

subsection \<open>Indexed offsets\<close>

lemma to_uint64_int_to_uint64: "to_uint64 (int (to_uint64 a) + b) = to_uint64 (a + b)"
  by (simp add: to_uint64_def mod_add_left_eq)

lemma to_int64_mod: "to_int64 x mod 2 ^ 64 = x mod 2 ^ 64"
proof -
  have "to_int64 x mod 2 ^ 64 = ((x + 2 ^ 63) mod 2 ^ 64 - 2 ^ 63 mod 2 ^ 64) mod 2 ^ 64"
    unfolding to_int64_def by (simp add: mod_diff_right_eq)
  also have "\<dots> = (x + 2 ^ 63 - 2 ^ 63) mod 2 ^ 64"
    by (simp only: mod_diff_eq)
  finally show ?thesis by simp
qed

lemma to_uint64_add_to_int64: "to_uint64 (a + to_int64 b) = to_uint64 (a + b)"
  unfolding to_uint64_def by (metis mod_add_right_eq to_int64_mod)

lemma to_uint64_product: "to_uint64 (a + to_int64 (x * to_int64 y)) = to_uint64 (a + x * y)"
proof -
  have "(x * to_int64 y) mod 2 ^ 64 = (x * y) mod 2 ^ 64"
    by (metis mod_mult_right_eq to_int64_mod)
  then have "(a + x * to_int64 y) mod 2 ^ 64 = (a + x * y) mod 2 ^ 64"
    by (metis mod_add_right_eq)
  then show ?thesis
    by (simp add: to_uint64_add_to_int64) (simp add: to_uint64_def)
qed

lemma to_uint64_nat_mod: "to_uint64 (int ((R + off) mod 2 ^ 64) + t) = to_uint64 (int R + (int off + t))"
proof -
  have "int ((R + off) mod 2 ^ 64) = (int R + int off) mod 2 ^ 64"
    by (simp add: zmod_int)
  then show ?thesis
    by (simp add: to_uint64_def mod_add_left_eq add.assoc)
qed

lemma to_uint64_id: "R < 2 ^ 64 \<Longrightarrow> to_uint64 (int R) = R"
  by (simp add: to_uint64_def)

lemma to_uint64_less: "to_uint64 x < 2 ^ 64"
  by (simp add: to_uint64_def nat_less_iff)

lemma to_uint64_nat_mod_numeral:
  "to_uint64 (int ((R + off) mod 18446744073709551616) + t) = to_uint64 (int R + (int off + t))"
  using to_uint64_nat_mod [of R off t] by simp

lemma getIndexedOffset_loop_spec:
  "R < 2 ^ 64 \<Longrightarrow>
   getIndexedOffset_loop past TD Ty Indices R = Inr r \<longleftrightarrow>
     (\<exists>t. spec_walk past TD Ty Indices = Some t \<and> r = to_uint64 (int R + t))"
proof (induction Indices arbitrary: Ty R r)
  case Nil
  then show ?case by (auto simp: to_uint64_id)
next
  case (Cons Idx Indices)
  show ?case
  proof (cases Ty)
    case (StructTy elems)
    show ?thesis
    proof (cases Idx)
      case NonConstant
      with StructTy show ?thesis by simp
    next
      case (ConstantInt bits v)
      show ?thesis
      proof (cases "bits = 32 \<and> v mod 2 ^ 32 < length elems")
        case False
        with StructTy ConstantInt show ?thesis
          by (auto simp: Let_def to_unsigned_def getZExtValue_def split: sum.splits)
      next
        case True
        show ?thesis
        proof (cases "getStructLayout past TD elems")
          case (Inl e)
          with StructTy ConstantInt True show ?thesis
            by (simp add: Let_def to_unsigned_def getZExtValue_def)
        next
          case (Inr Layout)
          have lt: "(R + MemberOffsets Layout ! (v mod 2 ^ 32)) mod 2 ^ 64 < 2 ^ 64"
            by simp
          from StructTy ConstantInt True Inr Cons.IH [OF lt] show ?thesis
            by (auto simp: Let_def to_unsigned_def getZExtValue_def to_uint64_nat_mod_numeral
                split: option.splits)
        qed
      qed
    qed
  next
    case other: VoidTy
    then show ?thesis by (simp add: getElementType_def)
  next
    case LabelTy
    then show ?thesis by (simp add: getElementType_def)
  next
    case FloatTy
    then show ?thesis by (simp add: getElementType_def)
  next
    case DoubleTy
    then show ?thesis by (simp add: getElementType_def)
  next
    case (IntegerTy bw)
    then show ?thesis by (simp add: getElementType_def)
  next
    case OpaqueTy
    then show ?thesis by (simp add: getElementType_def)
  next
    case (PointerTy elt)
    show ?thesis
    proof (cases Idx)
      case NonConstant
      with PointerTy show ?thesis by (simp add: getElementType_def)
    next
      case (ConstantInt bits v)
      show ?thesis
      proof (cases "getTypeSize past TD elt")
        case (Inl e)
        with PointerTy ConstantInt show ?thesis by (simp add: getElementType_def)
      next
        case (Inr s)
        from PointerTy ConstantInt Inr Cons.IH [OF to_uint64_less] show ?thesis
          by (auto simp: getElementType_def Let_def to_uint64_int_to_uint64 to_uint64_product
              add.assoc split: option.splits)
      qed
    qed
  next
    case (ArrayTy elt n)
    show ?thesis
    proof (cases Idx)
      case NonConstant
      with ArrayTy show ?thesis by (simp add: getElementType_def)
    next
      case (ConstantInt bits v)
      show ?thesis
      proof (cases "getTypeSize past TD elt")
        case (Inl e)
        with ArrayTy ConstantInt show ?thesis by (simp add: getElementType_def)
      next
        case (Inr s)
        from ArrayTy ConstantInt Inr Cons.IH [OF to_uint64_less] show ?thesis
          by (auto simp: getElementType_def Let_def to_uint64_int_to_uint64 to_uint64_product
              add.assoc split: option.splits)
      qed
    qed
  next
    case (PackedTy elt n)
    show ?thesis
    proof (cases Idx)
      case NonConstant
      with PackedTy show ?thesis by (simp add: getElementType_def)
    next
      case (ConstantInt bits v)
      show ?thesis
      proof (cases "getTypeSize past TD elt")
        case (Inl e)
        with PackedTy ConstantInt show ?thesis by (simp add: getElementType_def)
      next
        case (Inr s)
        from PackedTy ConstantInt Inr Cons.IH [OF to_uint64_less] show ?thesis
          by (auto simp: getElementType_def Let_def to_uint64_int_to_uint64 to_uint64_product
              add.assoc split: option.splits)
      qed
    qed
  qed
qed

text \<open>
  C5: \<open>getIndexedOffset\<close> returns an offset exactly when the walk of the
  specification is defined, and the offset is then the sum of the walk, which starts
  from 0, as a 64-bit unsigned number.
\<close>

theorem getIndexedOffset_spec:
  "getIndexedOffset past TD ptrTy Indices = Inr r \<longleftrightarrow>
     (\<exists>t. spec_indexed_offset past TD ptrTy Indices = Some t \<and> r = to_uint64 t)"
proof (cases ptrTy)
  case (PointerTy elt)
  have "(0::nat) < 2 ^ 64" by simp
  from getIndexedOffset_loop_spec [OF this, of past TD ptrTy Indices r] PointerTy
  show ?thesis
    by (simp add: getIndexedOffset_def spec_indexed_offset_def)
qed (simp_all add: getIndexedOffset_def spec_indexed_offset_def)

subsection \<open>Cutting the configuration string into tokens\<close>

lemma getToken_shorter:
  assumes "temp \<noteq> []"
  shows "length (snd (getToken temp ''-'')) < length temp"
proof -
  let ?s = "dropWhile (\<lambda>c. c \<in> set ''-'') temp"
  have "length (dropWhile (\<lambda>c. c \<notin> set ''-'') ?s) < length temp"
  proof (cases "?s = []")
    case True
    then have "length (dropWhile (\<lambda>c. c \<notin> set ''-'') ?s) = 0"
      by (simp only: dropWhile.simps list.size)
    moreover from assms have "0 < length temp"
      by simp
    ultimately show ?thesis by linarith
  next
    case False
    then have "\<not> (hd ?s \<in> set ''-'')"
      using hd_dropWhile by blast
    then have "length (dropWhile (\<lambda>c. c \<notin> set ''-'') ?s)
                 = length (dropWhile (\<lambda>c. c \<notin> set ''-'') (tl ?s))"
      using False by (cases ?s) auto
    moreover have "length (dropWhile (\<lambda>c. c \<notin> set ''-'') (tl ?s)) \<le> length (tl ?s)"
      by (rule length_dropWhile_le)
    moreover have "length (tl ?s) < length ?s"
      using False by (cases ?s) auto
    moreover have "length ?s \<le> length temp"
      by (rule length_dropWhile_le)
    ultimately show ?thesis by linarith
  qed
  then show ?thesis
    by (simp add: getToken_def Let_def)
qed

lemma tokens_upto_enough:
  "length temp \<le> n \<Longrightarrow> length temp \<le> m \<Longrightarrow> tokens_upto n temp = tokens_upto m temp"
proof (induction n arbitrary: m temp)
  case 0
  then show ?case by (cases m) simp_all
next
  case (Suc n)
  show ?case
  proof (cases "temp = []")
    case True
    then show ?thesis by (cases m) simp_all
  next
    case False
    with Suc.prems obtain m' where m: "m = Suc m'"
      by (cases m) auto
    from getToken_shorter [OF False] Suc.prems m
    have "length (snd (getToken temp ''-'')) \<le> n" and "length (snd (getToken temp ''-'')) \<le> m'"
      by simp_all
    then have "tokens_upto n (snd (getToken temp ''-''))
                 = tokens_upto m' (snd (getToken temp ''-''))"
      by (rule Suc.IH)
    with False m show ?thesis by simp
  qed
qed

lemma tokens_simps:
  "tokens [] = []"
  "temp \<noteq> [] \<Longrightarrow> tokens temp = fst (getToken temp ''-'') # tokens (snd (getToken temp ''-''))"
proof -
  show "tokens [] = []" by (simp add: tokens_def)
next
  assume ne: "temp \<noteq> []"
  then obtain m where m: "length temp = Suc m"
    by (cases temp) auto
  from getToken_shorter [OF ne] m have "length (snd (getToken temp ''-'')) \<le> m"
    by simp
  then have "tokens_upto m (snd (getToken temp ''-''))
               = tokens_upto (length (snd (getToken temp ''-''))) (snd (getToken temp ''-''))"
    by (rule tokens_upto_enough) simp
  with ne m show
    "tokens temp = fst (getToken temp ''-'') # tokens (snd (getToken temp ''-''))"
    by (simp add: tokens_def)
qed

lemma parse_loop_Nil: "parse_loop past [] TD = TD"
  by (subst parse_loop.simps) simp

lemma parse_loop_step:
  "temp \<noteq> [] \<Longrightarrow>
   parse_loop past temp TD =
     parse_loop past (snd (getToken temp ''-'')) (process_token past (fst (getToken temp ''-'')) TD)"
  by (subst parse_loop.simps) simp

lemma parse_loop_tokens:
  "parse_loop past temp TD = foldl (\<lambda>TD token. process_token past token TD) TD (tokens temp)"
proof (induction past temp TD rule: parse_loop.induct)
  case (1 past temp TD)
  show ?case
  proof (cases "temp = []")
    case True
    then show ?thesis
      by (simp add: parse_loop_Nil tokens_simps)
  next
    case False
    with "1.IH" show ?thesis
      by (simp add: parse_loop_step tokens_simps)
  qed
qed

subsection \<open>Malformed tokens and fields\<close>

lemma process_token_unknown:
  assumes "\<not> known_leading token"
  shows "process_token past token TD = TD"
proof -
  obtain arg0 token1 where g: "getToken token '':'' = (arg0, token1)"
    by (cases "getToken token '':''") auto
  show ?thesis
  proof (cases arg0)
    case Nil
    with g show ?thesis
      by (simp add: process_token_def)
  next
    case (Cons c p)
    with g assms have "c \<notin> set ''Eepivfa''"
      by (simp add: known_leading_def leading_char_def)
    with g Cons show ?thesis
      by (simp add: process_token_def)
  qed
qed

lemma foldl_filter_known:
  "foldl (\<lambda>TD token. process_token past token TD) TD (filter known_leading ts)
     = foldl (\<lambda>TD token. process_token past token TD) TD ts"
  by (induction ts arbitrary: TD) (simp_all add: process_token_unknown)

lemma digits_value_non_digit: "(case cs of [] \<Rightarrow> True | d # ds \<Rightarrow> \<not> isdigit d) \<Longrightarrow> digits_value acc cs = acc"
  by (cases cs) simp_all

lemma atoi_non_numeric: "non_numeric field \<Longrightarrow> atoi field = 0"
proof (cases "dropWhile isspace field")
  case Nil
  show ?thesis
    unfolding atoi_def Nil by simp
next
  case (Cons c cs)
  assume "non_numeric field"
  then have *: "if c = CHR ''-'' \<or> c = CHR ''+''
      then (case cs of [] \<Rightarrow> True | d # ds \<Rightarrow> \<not> isdigit d) else \<not> isdigit c"
    unfolding non_numeric_def Cons by simp
  show ?thesis
  proof (cases "c = CHR ''-'' \<or> c = CHR ''+''")
    case True
    with * have "digits_value 0 cs = 0"
      by (simp add: digits_value_non_digit)
    with True show ?thesis
      unfolding atoi_def Cons by auto
  next
    case False
    with * show ?thesis
      unfolding atoi_def Cons by simp
  qed
qed

lemma takeWhile_until: "\<not> P y \<Longrightarrow> takeWhile P (xs @ y # ys) = takeWhile P xs"
  by (induction xs) simp_all

lemma takeWhile_all: "\<forall>x \<in> set xs. P x \<Longrightarrow> \<not> P y \<Longrightarrow> takeWhile P (xs @ y # ys) = xs"
  by (induction xs) simp_all

lemma dropWhile_all: "\<forall>x \<in> set xs. P x \<Longrightarrow> \<not> P y \<Longrightarrow> dropWhile P (xs @ y # ys) = y # ys"
  by (induction xs) simp_all

lemma takeWhile_id: "\<forall>x \<in> set xs. P x \<Longrightarrow> takeWhile P xs = xs"
  by (induction xs) simp_all

lemma dropWhile_Nil: "\<forall>x \<in> set xs. P x \<Longrightarrow> dropWhile P xs = []"
  by (induction xs) simp_all

lemma dropWhile_none: "xs \<noteq> [] \<Longrightarrow> \<not> P (hd xs) \<Longrightarrow> dropWhile P (xs @ ys) = xs @ ys"
  by (cases xs) simp_all

text \<open>A field in front of a delimiter, and the last field.\<close>

lemma getToken_skip: "getToken (d # X) [d] = getToken X [d]"
  by (simp add: getToken_def)

lemma getToken_first:
  assumes "d \<notin> set f" and "f \<noteq> []"
  shows "getToken (f @ d # rest) [d] = (f, d # rest)"
proof -
  have all: "\<forall>x \<in> set f. x \<notin> set [d]"
    using assms(1) by auto
  have nd: "\<not> d \<notin> set [d]"
    by simp
  from assms have "\<not> hd f \<in> set [d]"
    by (cases f) auto
  with assms(2) have d: "dropWhile (\<lambda>c. c \<in> set [d]) (f @ d # rest) = f @ d # rest"
    by (rule dropWhile_none)
  have t: "takeWhile (\<lambda>c. c \<notin> set [d]) (f @ d # rest) = f"
    using all nd by (rule takeWhile_all)
  have r: "dropWhile (\<lambda>c. c \<notin> set [d]) (f @ d # rest) = d # rest"
    using all nd by (rule dropWhile_all)
  show ?thesis
    unfolding getToken_def Let_def d t r by (rule refl)
qed

lemma getToken_last:
  assumes "d \<notin> set f" and "f \<noteq> []"
  shows "getToken f [d] = (f, [])"
proof -
  have all: "\<forall>x \<in> set f. x \<notin> set [d]"
    using assms(1) by auto
  from assms have "\<not> hd f \<in> set [d]"
    by (cases f) auto
  with assms(2) have "dropWhile (\<lambda>c. c \<in> set [d]) (f @ []) = f @ []"
    by (rule dropWhile_none)
  then have d: "dropWhile (\<lambda>c. c \<in> set [d]) f = f"
    by simp
  have t: "takeWhile (\<lambda>c. c \<notin> set [d]) f = f"
    using all by (rule takeWhile_id)
  have r: "dropWhile (\<lambda>c. c \<notin> set [d]) f = []"
    using all by (rule dropWhile_Nil)
  show ?thesis
    unfolding getToken_def Let_def d t r by (rule refl)
qed

lemma getToken_Nil: "getToken [] ds = ([], [])"
  by (simp add: getToken_def)

lemma c_div_0: "c_div 0 8 = 0"
  by (simp add: c_div_def)

text \<open>
  C9, as stated, fails for a non-numeric field: after \<open>i16:x:y\<close> the entry of \<open>i16\<close>
  holds the alignments 0 and 0, not its defaults 2 and 2.
\<close>

theorem init_malformed_counterexample:
  "getAlignment blank_past (Alignments (init blank_past ''i16:x:y'')) INTEGER_ALIGN 16
     = TargetAlignElem_get INTEGER_ALIGN 0 0 16
   \<and> getAlignment blank_past (Alignments (init blank_past '''')) INTEGER_ALIGN 16
     = TargetAlignElem_get INTEGER_ALIGN 2 2 16"
  by code_simp

text \<open>
  C9, amended: \<open>init\<close> is a total function of the string and has no error result. The
  tokens with an unknown leading character are skipped: the descriptor is the one
  that the remaining tokens give. A non-numeric field parses as 0, and the 0 is
  stored like any other value: an alignment token whose two alignment fields are
  non-numeric sets both alignments of its entry to 0.
\<close>

theorem init_malformed:
  assumes "c \<in> set ''ivfa''"
    and "CHR '':'' \<notin> set w"
    and "CHR '':'' \<notin> set f1" and "f1 \<noteq> []" and "non_numeric f1"
    and "CHR '':'' \<notin> set f2" and "f2 \<noteq> []" and "non_numeric f2"
  shows "init past s =
           cap_by_pointer past
             (foldl (\<lambda>TD token. process_token past token TD)
                \<lparr>LittleEndian = False, PointerMemSize = 8, PointerABIAlign = 8,
                 PointerPrefAlign = 8, Alignments = set_defaults past []\<rparr>
                (filter known_leading (tokens s)))
         \<and> atoi f1 = 0 \<and> atoi f2 = 0
         \<and> process_token past (c # w @ '':'' @ f1 @ '':'' @ f2) TD =
             TD\<lparr>Alignments :=
                  setAlignment past (align_type_of c) 0 0 (to_short (atoi w)) (Alignments TD)\<rparr>"
proof -
  have skip: "init past s =
           cap_by_pointer past
             (foldl (\<lambda>TD token. process_token past token TD)
                \<lparr>LittleEndian = False, PointerMemSize = 8, PointerABIAlign = 8,
                 PointerPrefAlign = 8, Alignments = set_defaults past []\<rparr>
                (filter known_leading (tokens s)))"
    by (simp add: init_def parse_loop_tokens foldl_filter_known)
  from assms(5,8) have zero: "atoi f1 = 0" "atoi f2 = 0"
    by (simp_all add: atoi_non_numeric)
  from assms(1) have c: "c \<noteq> CHR '':''"
    by auto
  have "getToken ((c # w) @ CHR '':'' # f1 @ CHR '':'' # f2) '':''
                = (c # w, CHR '':'' # f1 @ CHR '':'' # f2)"
    using assms(2) c by (intro getToken_first) simp_all
  then have arg0: "getToken (c # w @ CHR '':'' # f1 @ CHR '':'' # f2) '':''
                = (c # w, CHR '':'' # f1 @ CHR '':'' # f2)"
    by simp
  have a1: "getToken (CHR '':'' # f1 @ CHR '':'' # f2) '':'' = (f1, CHR '':'' # f2)"
    unfolding getToken_skip using assms(3,4) by (rule getToken_first)
  have a2: "getToken (CHR '':'' # f2) '':'' = (f2, [])"
    unfolding getToken_skip using assms(6,7) by (rule getToken_last)
  have "process_token past (c # w @ CHR '':'' # f1 @ CHR '':'' # f2) TD =
             TD\<lparr>Alignments :=
                  setAlignment past (align_type_of c) 0 0 (to_short (atoi w)) (Alignments TD)\<rparr>"
  proof -
    consider "c = CHR ''i''" | "c = CHR ''v''" | "c = CHR ''f''" | "c = CHR ''a''"
      using assms(1) by auto
    then show ?thesis
      using arg0 a1 a2
      by cases (simp_all add: process_token_def zero c_div_0 to_uchar_def align_type_of_def)
  qed
  with skip zero show ?thesis by simp
qed

theorem init_malformed_witness:
  "init blank_past '''' =
           cap_by_pointer blank_past
             (foldl (\<lambda>TD token. process_token blank_past token TD)
                \<lparr>LittleEndian = False, PointerMemSize = 8, PointerABIAlign = 8,
                 PointerPrefAlign = 8, Alignments = set_defaults blank_past []\<rparr>
                (filter known_leading (tokens '''')))
         \<and> atoi ''x'' = 0 \<and> atoi ''y'' = 0
         \<and> process_token blank_past (CHR ''i'' # ''16'' @ '':'' @ ''x'' @ '':'' @ ''y'')
               (init blank_past '''') =
             (init blank_past '''')\<lparr>Alignments :=
                  setAlignment blank_past (align_type_of CHR ''i'') 0 0 (to_short (atoi ''16''))
                    (Alignments (init blank_past ''''))\<rparr>"
  by (rule init_malformed) (simp_all add: non_numeric_def isspace_def isdigit_def)

subsection \<open>Preferred and ABI alignments\<close>

lemma setAlignment_list_all:
  assumes "list_all P xs"
    and "P (TargetAlignElem_get k a p w)"
    and "\<And>cur. P cur \<Longrightarrow> P (cur\<lparr>ABIAlign := a, PrefAlign := p\<rparr>)"
  shows "list_all P (setAlignment past k a p w xs)"
proof -
  let ?I = "lower_bound xs (TargetAlignElem_get k a p w)"
  have ins: "list_all P (insert_at ?I (TargetAlignElem_get k a p w) xs)"
    using assms(1,2)
    by (auto simp: insert_at_def list_all_iff dest: in_set_takeD in_set_dropD)
  have upd: "list_all P (xs[?I := (xs ! ?I)\<lparr>ABIAlign := a, PrefAlign := p\<rparr>])"
    if "?I < length xs"
  proof -
    from that assms(1) have "P (xs ! ?I)"
      by (simp add: list_all_length)
    then have "P ((xs ! ?I)\<lparr>ABIAlign := a, PrefAlign := p\<rparr>)"
      by (rule assms(3))
    with assms(1) show ?thesis
      by (auto simp: list_all_iff dest!: set_update_subset_insert [THEN subsetD])
  qed
  from ins upd assms(1) show ?thesis
    by (simp add: setAlignment_def Let_def deref_def)
qed

lemma setAlignment_pref_ge_abi:
  "list_all (\<lambda>e. ABIAlign e \<le> PrefAlign e) xs \<Longrightarrow> a \<le> p \<Longrightarrow>
   list_all (\<lambda>e. ABIAlign e \<le> PrefAlign e) (setAlignment past k a p w xs)"
  by (rule setAlignment_list_all) (simp_all add: TargetAlignElem_get_def)

lemma set_defaults_pref_ge_abi:
  "list_all (\<lambda>e. ABIAlign e \<le> PrefAlign e) (set_defaults past [])"
  by (simp add: set_defaults_def default_alignments_def setAlignment_pref_ge_abi)

lemma process_token_pref_ge_abi:
  assumes "token_pref_ok token" and "pref_ge_abi TD"
  shows "pref_ge_abi (process_token past token TD)"
proof -
  obtain arg0 token1 where g0: "getToken token '':'' = (arg0, token1)"
    by (cases "getToken token '':''") auto
  obtain a1 token2 where g1: "getToken token1 '':'' = (a1, token2)"
    by (cases "getToken token1 '':''") auto
  obtain a2 token3 where g2: "getToken token2 '':'' = (a2, token3)"
    by (cases "getToken token2 '':''") auto
  obtain a3 token4 where g3: "getToken token3 '':'' = (a3, token4)"
    by (cases "getToken token3 '':''") auto
  show ?thesis
  proof (cases arg0)
    case Nil
    with g0 assms(2) show ?thesis
      by (simp add: process_token_def)
  next
    case (Cons c p)
    consider "c = CHR ''E'' \<or> c = CHR ''e''" | "c = CHR ''p''"
      | "c = CHR ''i'' \<or> c = CHR ''v'' \<or> c = CHR ''f'' \<or> c = CHR ''a''"
      | "c \<notin> set ''Eepivfa''"
      by auto
    then show ?thesis
    proof cases
      case 1
      with g0 Cons assms(2) show ?thesis
        by (auto simp: process_token_def pref_ge_abi_def)
    next
      case 2
      with g0 g1 g2 g3 Cons assms show ?thesis
        by (auto simp: process_token_def token_pref_ok_def pref_ge_abi_def Let_def)
    next
      case 3
      with g0 g1 g2 g3 Cons assms(1)
      have ok: "to_uchar (c_div (atoi a2) 8) = 0
                \<or> to_uchar (c_div (atoi a1) 8) \<le> to_uchar (c_div (atoi a2) 8)"
        by (auto simp: token_pref_ok_def Let_def)
      let ?abi = "to_uchar (c_div (atoi a1) 8)"
      let ?pref = "if to_uchar (c_div (atoi a2) 8) = 0 then ?abi else to_uchar (c_div (atoi a2) 8)"
      from ok have "?abi \<le> ?pref"
        by auto
      with assms(2) have "list_all (\<lambda>e. ABIAlign e \<le> PrefAlign e)
          (setAlignment past (align_type_of c) ?abi ?pref (to_short (atoi p)) (Alignments TD))"
        by (intro setAlignment_pref_ge_abi) (simp_all add: pref_ge_abi_def)
      moreover from 3 g0 g1 g2 Cons have "process_token past token TD =
          TD\<lparr>Alignments := setAlignment past (align_type_of c) ?abi ?pref (to_short (atoi p))
                 (Alignments TD)\<rparr>"
        by (auto simp: process_token_def Let_def align_type_of_def)
      ultimately show ?thesis
        using assms(2) by (simp add: pref_ge_abi_def)
    next
      case 4
      with g0 Cons assms(2) show ?thesis
        by (simp add: process_token_def)
    qed
  qed
qed

lemma foldl_process_token_pref_ge_abi:
  "list_all token_pref_ok ts \<Longrightarrow> pref_ge_abi TD \<Longrightarrow>
   pref_ge_abi (foldl (\<lambda>TD token. process_token past token TD) TD ts)"
  by (induction ts arbitrary: TD) (simp_all add: process_token_pref_ge_abi)

lemma cap_by_pointer_pref_ge_abi:
  assumes "pref_ge_abi TD"
  shows "pref_ge_abi (cap_by_pointer past TD)"
proof -
  have set: "pref_ge_abi (TD'\<lparr>Alignments := setAlignment past k (PointerMemSize TD')
                 (PointerMemSize TD') 64 (Alignments TD')\<rparr>)"
    if "pref_ge_abi TD'" for TD' k
    using that by (simp add: pref_ge_abi_def setAlignment_pref_ge_abi)
  from assms show ?thesis
    by (simp add: cap_by_pointer_def Let_def set)
qed

lemma init_pref_ge_abi:
  assumes "list_all token_pref_ok (tokens s)"
  shows "pref_ge_abi (init past s)"
proof -
  have "pref_ge_abi \<lparr>LittleEndian = False, PointerMemSize = 8, PointerABIAlign = 8,
           PointerPrefAlign = 8, Alignments = set_defaults past []\<rparr>"
    by (simp add: pref_ge_abi_def set_defaults_pref_ge_abi)
  with assms show ?thesis
    by (simp add: init_def parse_loop_tokens foldl_process_token_pref_ge_abi
        cap_by_pointer_pref_ge_abi)
qed

lemma getAlignment_pref_ge_abi:
  assumes "pref_ge_abi TD" and "\<forall>xs. ABIAlign (past xs) \<le> PrefAlign (past xs)"
  shows "unat (ABIAlign (getAlignment past (Alignments TD) k w))
           \<le> unat (PrefAlign (getAlignment past (Alignments TD) k w))"
proof -
  have "ABIAlign (getAlignment past (Alignments TD) k w)
          \<le> PrefAlign (getAlignment past (Alignments TD) k w)"
    using assms by (auto simp: getAlignment_def deref_def Let_def pref_ge_abi_def list_all_length)
  then show ?thesis
    by (simp add: word_le_nat_alt)
qed

lemma getAlignment_Ty_pref_ge_abi:
  assumes "pref_ge_abi TD" and "\<forall>xs. ABIAlign (past xs) \<le> PrefAlign (past xs)"
  shows "getAlignment_Ty past TD T True = Inr a \<Longrightarrow> getAlignment_Ty past TD T False = Inr p
         \<Longrightarrow> a \<le> p"
proof (induction T arbitrary: a p)
  case (ArrayTy elt n)
  then show ?case
    by (simp add: getAlignment_Ty_ArrayTy)
next
  case (StructTy elems)
  from StructTy.prems(1) obtain L where L: "getStructLayout past TD elems = Inr L"
    using getAlignment_Ty_StructTy_Inr by blast
  from getAlignment_pref_ge_abi [OF assms, of AGGREGATE_ALIGN 0] StructTy.prems
  show ?case
    by (auto simp: getAlignment_Ty_StructTy [OF L] Let_def split: if_splits)
next
  case (PointerTy elt)
  with assms(1) show ?case
    by (auto simp: getAlignment_Ty.simps pref_ge_abi_def word_le_nat_alt)
next
  case LabelTy
  with assms(1) show ?case
    by (auto simp: getAlignment_Ty.simps pref_ge_abi_def word_le_nat_alt)
next
  case VoidTy
  with getAlignment_pref_ge_abi [OF assms] show ?case
    by (auto simp: getAlignment_Ty.simps lookup_alignment_def Let_def
        split: sum.splits if_splits)
next
  case FloatTy
  with getAlignment_pref_ge_abi [OF assms] show ?case
    by (auto simp: getAlignment_Ty.simps lookup_alignment_def Let_def
        split: sum.splits if_splits)
next
  case DoubleTy
  with getAlignment_pref_ge_abi [OF assms] show ?case
    by (auto simp: getAlignment_Ty.simps lookup_alignment_def Let_def
        split: sum.splits if_splits)
next
  case (IntegerTy bw)
  with getAlignment_pref_ge_abi [OF assms] show ?case
    by (auto simp: getAlignment_Ty.simps lookup_alignment_def Let_def
        split: sum.splits if_splits)
next
  case (PackedTy elt bw)
  with getAlignment_pref_ge_abi [OF assms] show ?case
    by (auto simp: getAlignment_Ty.simps lookup_alignment_def Let_def
        split: sum.splits if_splits)
next
  case OpaqueTy
  then show ?case
    by (simp add: getAlignment_Ty.simps)
qed

lemma init_i32_64_32:
  "init blank_past ''i32:64:32'' =
     \<lparr>LittleEndian = False, PointerMemSize = 8, PointerABIAlign = 8, PointerPrefAlign = 8,
      Alignments =
        [TargetAlignElem_get AGGREGATE_ALIGN 0 0 0, TargetAlignElem_get FLOAT_ALIGN 4 4 32,
         TargetAlignElem_get FLOAT_ALIGN 8 8 64, TargetAlignElem_get INTEGER_ALIGN 1 1 1,
         TargetAlignElem_get INTEGER_ALIGN 1 1 8, TargetAlignElem_get INTEGER_ALIGN 2 2 16,
         TargetAlignElem_get INTEGER_ALIGN 8 4 32, TargetAlignElem_get INTEGER_ALIGN 8 8 64,
         TargetAlignElem_get PACKED_ALIGN 8 8 64, TargetAlignElem_get PACKED_ALIGN 16 16 128]\<rparr>"
  by code_simp

text \<open>
  C8, as stated, fails: after the token \<open>i32:64:32\<close> the ABI alignment of \<open>i32\<close> is
  8 bytes and its preferred alignment 4 bytes.
\<close>

theorem pref_ge_abi_counterexample:
  "getABITypeAlignment blank_past (init blank_past ''i32:64:32'') (IntegerTy 32) = Inr 8
   \<and> getPrefTypeAlignment blank_past (init blank_past ''i32:64:32'') (IntegerTy 32) = Inr 4"
  by (simp add: getABITypeAlignment_def getPrefTypeAlignment_def init_i32_64_32
      getAlignment_Ty.simps getTypeSize_IntegerTy integer_size_def lookup_simps)

text \<open>
  C8, amended: for every configuration string none of whose pointer or alignment
  tokens gives a preferred alignment that is neither zero nor at least the token's
  ABI alignment (both in bytes, as \<open>init\<close> stores them), and for every type for which
  both alignments are defined, the preferred alignment is at least the ABI
  alignment, provided that the same holds of the record behind the table.
\<close>

theorem pref_alignment_ge_abi:
  assumes "list_all token_pref_ok (tokens s)"
    and "\<forall>xs. ABIAlign (past xs) \<le> PrefAlign (past xs)"
    and "getABITypeAlignment past (init past s) T = Inr a"
    and "getPrefTypeAlignment past (init past s) T = Inr p"
  shows "a \<le> p"
  using getAlignment_Ty_pref_ge_abi [OF init_pref_ge_abi [OF assms(1)] assms(2)] assms(3,4)
  by (simp add: getABITypeAlignment_def getPrefTypeAlignment_def)

lemma init_i64_32_64:
  "init blank_past ''i64:32:64'' =
     \<lparr>LittleEndian = False, PointerMemSize = 8, PointerABIAlign = 8, PointerPrefAlign = 8,
      Alignments =
        [TargetAlignElem_get AGGREGATE_ALIGN 0 0 0, TargetAlignElem_get FLOAT_ALIGN 4 4 32,
         TargetAlignElem_get FLOAT_ALIGN 8 8 64, TargetAlignElem_get INTEGER_ALIGN 1 1 1,
         TargetAlignElem_get INTEGER_ALIGN 1 1 8, TargetAlignElem_get INTEGER_ALIGN 2 2 16,
         TargetAlignElem_get INTEGER_ALIGN 4 4 32, TargetAlignElem_get INTEGER_ALIGN 4 8 64,
         TargetAlignElem_get PACKED_ALIGN 8 8 64, TargetAlignElem_get PACKED_ALIGN 16 16 128]\<rparr>"
  by code_simp

theorem pref_alignment_ge_abi_witness:
  "getABITypeAlignment blank_past (init blank_past ''i64:32:64'') (IntegerTy 64) = Inr 4
   \<and> getPrefTypeAlignment blank_past (init blank_past ''i64:32:64'') (IntegerTy 64) = Inr 8
   \<and> (4::nat) \<le> 8"
proof -
  have t: "list_all token_pref_ok (tokens ''i64:32:64'')"
    by code_simp
  have b: "\<forall>xs. ABIAlign (blank_past xs) \<le> PrefAlign (blank_past xs)"
    by (simp add: blank_past_def InvalidAlignmentElem_def TargetAlignElem_get_def)
  have a: "getABITypeAlignment blank_past (init blank_past ''i64:32:64'') (IntegerTy 64) = Inr 4"
    by (simp add: getABITypeAlignment_def init_i64_32_64
      getAlignment_Ty.simps getTypeSize_IntegerTy integer_size_def lookup_simps)
  have p: "getPrefTypeAlignment blank_past (init blank_past ''i64:32:64'') (IntegerTy 64) = Inr 8"
    by (simp add: getPrefTypeAlignment_def init_i64_32_64
      getAlignment_Ty.simps getTypeSize_IntegerTy integer_size_def lookup_simps)
  from pref_alignment_ge_abi [OF t b a p] a p show ?thesis
    by simp
qed

subsection \<open>The table as a sorted list of records\<close>

lemma elem_less_trans: "elem_less a b \<Longrightarrow> elem_less b c \<Longrightarrow> elem_less a c"
  by (auto simp: elem_less_def)

lemma AlignTypeEnum_value_inj: "AlignTypeEnum_value a = AlignTypeEnum_value b \<longleftrightarrow> a = b"
  by (cases a; cases b) simp_all

lemma elem_less_total:
  "elem_less a b \<or> elem_less b a \<or> (AlignType a = AlignType b \<and> TypeBitWidth a = TypeBitWidth b)"
proof -
  have "AlignTypeEnum_value (AlignType a) < AlignTypeEnum_value (AlignType b)
        \<or> AlignTypeEnum_value (AlignType b) < AlignTypeEnum_value (AlignType a)
        \<or> AlignType a = AlignType b"
    using AlignTypeEnum_value_inj [of "AlignType a" "AlignType b"] by linarith
  moreover have "sint (TypeBitWidth a) < sint (TypeBitWidth b)
        \<or> sint (TypeBitWidth b) < sint (TypeBitWidth a)
        \<or> TypeBitWidth a = TypeBitWidth b"
  proof (cases "sint (TypeBitWidth a) = sint (TypeBitWidth b)")
    case True
    then have "TypeBitWidth a = TypeBitWidth b"
      by (rule signed_word_eqI)
    then show ?thesis by simp
  next
    case False
    then show ?thesis by linarith
  qed
  ultimately show ?thesis
    by (auto simp: elem_less_def)
qed

lemma elem_less_same_key:
  "AlignType a = AlignType a' \<Longrightarrow> TypeBitWidth a = TypeBitWidth a' \<Longrightarrow>
   elem_less a b = elem_less a' b \<and> elem_less b a = elem_less b a'"
  by (simp add: elem_less_def)

lemma lower_bound_Cons:
  "lower_bound (x # xs) elt = (if elem_less x elt then Suc (lower_bound xs elt) else 0)"
  by (simp add: lower_bound_def)

lemma setAlignment_Nil:
  assumes "\<forall>xs. AlignType (past xs) = INVALID_ALIGN" and "k \<noteq> INVALID_ALIGN"
  shows "setAlignment past k a p w [] = [TargetAlignElem_get k a p w]"
  using assms by (auto simp: setAlignment_def Let_def lower_bound_def deref_def insert_at_def)

lemma setAlignment_Cons:
  assumes "\<forall>xs. AlignType (past xs) = INVALID_ALIGN" and "k \<noteq> INVALID_ALIGN"
  shows "setAlignment past k a p w (x # xs) =
     (if elem_less x (TargetAlignElem_get k a p w) then x # setAlignment past k a p w xs
      else if AlignType x = k \<and> TypeBitWidth x = w then TargetAlignElem_get k a p w # xs
      else TargetAlignElem_get k a p w # x # xs)"
proof (cases "elem_less x (TargetAlignElem_get k a p w)")
  case True
  let ?I = "lower_bound xs (TargetAlignElem_get k a p w)"
  show ?thesis
  proof (cases "?I < length xs")
    case inb: True
    with True show ?thesis
      by (simp add: setAlignment_def Let_def lower_bound_Cons deref_def insert_at_def)
  next
    case False
    with True assms show ?thesis
      by (simp add: setAlignment_def Let_def lower_bound_Cons deref_def insert_at_def)
  qed
next
  case False
  then show ?thesis
    by (simp add: setAlignment_def Let_def lower_bound_Cons deref_def insert_at_def
        TargetAlignElem_get_def)
qed

lemma setAlignment_upsert:
  assumes "\<forall>xs. AlignType (past xs) = INVALID_ALIGN" and "k \<noteq> INVALID_ALIGN"
  shows "setAlignment past k a p w xs = upsert (TargetAlignElem_get k a p w) xs"
proof (induction xs)
  case Nil
  from assms show ?case
    by (simp add: setAlignment_Nil)
next
  case (Cons x xs)
  then show ?case
    by (simp add: setAlignment_Cons [OF assms]) (simp add: TargetAlignElem_get_def)
qed

lemma set_upsert_subset: "set (upsert e xs) \<subseteq> insert e (set xs)"
  by (induction xs) auto

lemma in_set_upsert: "e \<in> set (upsert e xs)"
  by (induction xs) auto

lemma sorted_upsert:
  "sorted_wrt elem_less xs \<Longrightarrow> sorted_wrt elem_less (upsert e xs)"
proof (induction xs)
  case Nil
  then show ?case by simp
next
  case (Cons x xs)
  show ?case
  proof (cases "elem_less x e")
    case True
    have "elem_less x y" if "y \<in> set (upsert e xs)" for y
      using that set_upsert_subset [of e xs] True Cons.prems by auto
    with True Cons show ?thesis
      by simp
  next
    case False
    show ?thesis
    proof (cases "AlignType x = AlignType e \<and> TypeBitWidth x = TypeBitWidth e")
      case same: True
      then have "elem_less e y = elem_less x y" for y
        using elem_less_same_key [of e x y] by simp
      with False same Cons.prems show ?thesis
        by simp
    next
      case diff: False
      with False have ex: "elem_less e x"
        using elem_less_total [of x e] by auto
      then have "elem_less e y" if "y \<in> set xs" for y
        using that Cons.prems by (auto intro: elem_less_trans)
      with False diff ex Cons.prems show ?thesis
        by simp
    qed
  qed
qed

text \<open>The records that stay are those with another kind or bit width.\<close>

lemma set_upsert:
  "sorted_wrt elem_less xs \<Longrightarrow>
   set (upsert e xs) =
     insert e {x \<in> set xs. \<not> (AlignType x = AlignType e \<and> TypeBitWidth x = TypeBitWidth e)}"
proof (induction xs)
  case Nil
  then show ?case by simp
next
  case (Cons x xs)
  have less_differs: "\<not> (AlignType y = AlignType z \<and> TypeBitWidth y = TypeBitWidth z)"
    if "elem_less y z" for y z
    using that by (auto simp: elem_less_def)
  show ?case
  proof (cases "elem_less x e")
    case True
    with Cons less_differs [OF True] show ?thesis
      by auto
  next
    case False
    show ?thesis
    proof (cases "AlignType x = AlignType e \<and> TypeBitWidth x = TypeBitWidth e")
      case same: True
      have "\<not> (AlignType y = AlignType e \<and> TypeBitWidth y = TypeBitWidth e)" if "y \<in> set xs" for y
      proof -
        from that Cons.prems have "elem_less x y" by simp
        from less_differs [OF this] same show ?thesis by auto
      qed
      with False same show ?thesis
        by auto
    next
      case diff: False
      with False have ex: "elem_less e x"
        using elem_less_total [of x e] by auto
      have "\<not> (AlignType y = AlignType e \<and> TypeBitWidth y = TypeBitWidth e)" if "y \<in> set xs" for y
      proof -
        from that Cons.prems have "elem_less x y" by simp
        with ex have "elem_less e y" by (rule elem_less_trans)
        from less_differs [OF this] show ?thesis by auto
      qed
      with False diff show ?thesis
        by auto
    qed
  qed
qed

lemma sorted_wrt_elem_less_unique:
  "sorted_wrt elem_less xs \<Longrightarrow> sorted_wrt elem_less ys \<Longrightarrow> set xs = set ys \<Longrightarrow> xs = ys"
proof (induction xs arbitrary: ys)
  case Nil
  then show ?case by simp
next
  case (Cons x xs)
  from Cons.prems(3) obtain y ys' where ys: "ys = y # ys'"
    by (cases ys) auto
  have xy: "x = y"
  proof (rule ccontr)
    assume ne: "x \<noteq> y"
    with Cons.prems(3) ys have "x \<in> set ys'" and "y \<in> set xs"
      by auto
    with Cons.prems(1,2) ys have "elem_less y x" and "elem_less x y"
      by auto
    then show False
      by (auto simp: elem_less_def)
  qed
  have "x \<notin> set xs" and "y \<notin> set ys'"
    using Cons.prems(1,2) ys by (auto simp: elem_less_def)
  with Cons.prems(3) ys xy have "set xs = set ys'"
    by auto
  with Cons.IH [of ys'] Cons.prems(1,2) ys xy show ?case
    by simp
qed

subsection \<open>Printing and reading decimal numbers\<close>

lemma digit_cases: "n < (10::nat) \<Longrightarrow> n \<in> {0, 1, 2, 3, 4, 5, 6, 7, 8, 9}"
  by (simp only: insert_iff empty_iff) arith

lemma digit_char_isdigit: "n < 10 \<Longrightarrow> isdigit (digit_char n)"
  by (drule digit_cases) (auto simp: isdigit_def digit_char_def)

lemma digit_of_digit_char: "n < 10 \<Longrightarrow> digit_of (digit_char n) = n"
  by (drule digit_cases) (auto simp: digit_of_def digit_char_def)

lemma isdigit_plain:
  "isdigit c \<Longrightarrow> c \<noteq> CHR ''-'' \<and> c \<noteq> CHR '':'' \<and> c \<noteq> CHR ''+'' \<and> \<not> isspace c"
  by (auto simp: isdigit_def isspace_def)

lemma utostr_digits: "\<forall>c \<in> set (utostr n). isdigit c"
proof (induction n rule: utostr.induct)
  case (1 n)
  show ?case
  proof (cases "n < 10")
    case True
    then show ?thesis
      by (subst utostr.simps) (simp add: digit_char_isdigit)
  next
    case False
    with "1.IH" show ?thesis
      by (subst utostr.simps) (simp add: digit_char_isdigit)
  qed
qed

lemma utostr_not_Nil: "utostr n \<noteq> []"
  by (subst utostr.simps) simp

lemma digits_value_append:
  "\<forall>c \<in> set xs. isdigit c \<Longrightarrow>
   digits_value acc (xs @ ys) = digits_value (digits_value acc xs) ys"
  by (induction xs arbitrary: acc) simp_all

lemma digits_value_utostr: "digits_value acc (utostr n) = acc * 10 ^ length (utostr n) + n"
proof (induction n arbitrary: acc rule: utostr.induct)
  case (1 n)
  show ?case
  proof (cases "n < 10")
    case True
    then show ?thesis
      by (subst (1 2) utostr.simps) (simp add: digit_char_isdigit digit_of_digit_char)
  next
    case False
    have u: "utostr n = utostr (n div 10) @ [digit_char (n mod 10)]"
      using False by (subst utostr.simps) simp
    have "digits_value acc (utostr n)
            = digits_value (digits_value acc (utostr (n div 10))) [digit_char (n mod 10)]"
      unfolding u using utostr_digits by (rule digits_value_append)
    also have "\<dots> = (acc * 10 ^ length (utostr (n div 10)) + n div 10) * 10 + n mod 10"
      using False by (simp add: "1.IH" digit_char_isdigit digit_of_digit_char)
    also have "\<dots> = acc * 10 ^ length (utostr n) + n"
      unfolding u by (simp add: algebra_simps)
    finally show ?thesis .
  qed
qed

lemma atoi_utostr: "atoi (utostr n) = int n"
proof -
  obtain c cs where u: "utostr n = c # cs"
    using utostr_not_Nil [of n] by (cases "utostr n") auto
  with utostr_digits [of n] have "isdigit c"
    by simp
  then have c: "c \<noteq> CHR ''-''" "c \<noteq> CHR ''+''" "\<not> isspace c"
    using isdigit_plain by blast+
  have "digits_value 0 (c # cs) = n"
    using digits_value_utostr [of 0 n] u by simp
  with c show ?thesis
    unfolding atoi_def u by simp
qed

lemma atoi_itostr: "0 \<le> i \<Longrightarrow> atoi (itostr i) = i"
  by (simp add: itostr_def atoi_utostr)

lemma itostr_plain:
  assumes "0 \<le> i"
  shows "CHR ''-'' \<notin> set (itostr i)" and "CHR '':'' \<notin> set (itostr i)" and "itostr i \<noteq> []"
  using assms utostr_digits [of "nat i"] isdigit_plain utostr_not_Nil [of "nat i"]
  by (auto simp: itostr_def)

lemma c_div_times_8: "0 \<le> x \<Longrightarrow> c_div (x * 8) 8 = x"
  by (simp add: c_div_def sgn_if)

lemma read_uchar: "to_uchar (c_div (atoi (itostr (int (unat (a :: uchar) * 8)))) 8) = a"
proof -
  have "atoi (itostr (int (unat a * 8))) = int (unat a) * 8"
    using atoi_itostr [of "int (unat a * 8)"] by simp
  moreover have "c_div (int (unat a) * 8) 8 = int (unat a)"
    by (rule c_div_times_8) simp
  ultimately show ?thesis
    by (simp add: to_uchar_def)
qed

lemma read_short: "0 \<le> sint (w :: short) \<Longrightarrow> to_short (atoi (itostr (sint w))) = w"
  by (simp add: atoi_itostr to_short_def)

subsection \<open>The tokens of the printed form\<close>

lemma tokens_front:
  assumes "t \<noteq> []" and "CHR ''-'' \<notin> set t"
  shows "tokens (t @ CHR ''-'' # r) = t # tokens (CHR ''-'' # r)"
    and "tokens t = [t]"
proof -
  have "getToken (t @ CHR ''-'' # r) ''-'' = (t, CHR ''-'' # r)"
    using assms(2,1) by (rule getToken_first)
  with assms(1) show "tokens (t @ CHR ''-'' # r) = t # tokens (CHR ''-'' # r)"
    by (simp add: tokens_simps)
  have "getToken t ''-'' = (t, [])"
    using assms(2,1) by (rule getToken_last)
  with assms(1) show "tokens t = [t]"
    by (simp add: tokens_simps)
qed

lemma tokens_dash: "X \<noteq> [] \<Longrightarrow> tokens (CHR ''-'' # X) = tokens X"
  by (simp add: tokens_simps getToken_skip)

lemma tokens_dashed:
  "\<forall>t \<in> set ts. t \<noteq> [] \<and> CHR ''-'' \<notin> set t \<Longrightarrow>
   tokens (concat (map (\<lambda>t. CHR ''-'' # t) ts)) = ts"
proof (induction ts)
  case Nil
  then show ?case by (simp add: tokens_simps)
next
  case (Cons t ts)
  let ?R = "concat (map (\<lambda>t. CHR ''-'' # t) ts)"
  from Cons.prems have t: "t \<noteq> []" "CHR ''-'' \<notin> set t"
    by simp_all
  from Cons have IH: "tokens ?R = ts"
    by simp
  have "tokens (concat (map (\<lambda>t. CHR ''-'' # t) (t # ts))) = tokens (CHR ''-'' # (t @ ?R))"
    by simp
  also have "\<dots> = tokens (t @ ?R)"
    using t(1) by (intro tokens_dash) simp
  also have "\<dots> = t # ts"
  proof (cases ts)
    case Nil
    with t show ?thesis
      by (simp add: tokens_front(2))
  next
    case (Cons t' ts')
    then obtain r where r: "?R = CHR ''-'' # r"
      by simp
    have "tokens (t @ CHR ''-'' # r) = t # tokens (CHR ''-'' # r)"
      using t by (rule tokens_front(1))
    with r IH show ?thesis
      by simp
  qed
  finally show ?case .
qed

lemma getStringRepresentation_dashed:
  "getStringRepresentation TD =
     (if LittleEndian TD then ''e'' else ''E'')
       @ concat (map (\<lambda>t. CHR ''-'' # t) (pointer_token TD # map dump (Alignments TD)))"
  by (simp add: getStringRepresentation_def pointer_token_def comp_def)

lemma AlignTypeEnum_char_plain:
  "k \<noteq> INVALID_ALIGN \<Longrightarrow>
   AlignTypeEnum_char k \<noteq> CHR ''-'' \<and> AlignTypeEnum_char k \<noteq> CHR '':''"
  by (cases k) simp_all

lemma dump_plain:
  assumes "AlignType e \<noteq> INVALID_ALIGN" and "0 \<le> sint (TypeBitWidth e)"
  shows "dump e \<noteq> []" and "CHR ''-'' \<notin> set (dump e)"
  using assms AlignTypeEnum_char_plain [of "AlignType e"]
    itostr_plain(1) [of "sint (TypeBitWidth e)"]
    itostr_plain(1) [of "int (unat (ABIAlign e) * 8)"]
    itostr_plain(1) [of "int (unat (PrefAlign e) * 8)"]
  by (auto simp: dump_def)

lemma pointer_token_plain:
  "pointer_token TD \<noteq> []" "CHR ''-'' \<notin> set (pointer_token TD)"
  using itostr_plain(1) [of "int (unat (PointerMemSize TD) * 8)"]
    itostr_plain(1) [of "int (unat (PointerABIAlign TD) * 8)"]
    itostr_plain(1) [of "int (unat (PointerPrefAlign TD) * 8)"]
  by (auto simp: pointer_token_def)

lemma tokens_getStringRepresentation:
  assumes "\<forall>e \<in> set (Alignments TD). AlignType e \<noteq> INVALID_ALIGN \<and> 0 \<le> sint (TypeBitWidth e)"
  shows "tokens (getStringRepresentation TD) =
           (if LittleEndian TD then ''e'' else ''E'')
             # pointer_token TD # map dump (Alignments TD)"
proof -
  let ?ts = "pointer_token TD # map dump (Alignments TD)"
  have plain: "\<forall>t \<in> set ?ts. t \<noteq> [] \<and> CHR ''-'' \<notin> set t"
    using assms pointer_token_plain [of TD] by (auto simp: dump_plain)
  have rest: "concat (map (\<lambda>t. CHR ''-'' # t) ?ts)
                = CHR ''-'' # pointer_token TD
                    @ concat (map (\<lambda>t. CHR ''-'' # t) (map dump (Alignments TD)))"
    by simp
  have "tokens ((if LittleEndian TD then ''e'' else ''E'') @ concat (map (\<lambda>t. CHR ''-'' # t) ?ts))
          = (if LittleEndian TD then ''e'' else ''E'')
              # tokens (concat (map (\<lambda>t. CHR ''-'' # t) ?ts))"
    unfolding rest by (rule tokens_front(1)) auto
  also have "tokens (concat (map (\<lambda>t. CHR ''-'' # t) ?ts)) = ?ts"
    using plain by (rule tokens_dashed)
  finally show ?thesis
    by (simp only: getStringRepresentation_dashed)
qed

subsection \<open>Reading the printed tokens\<close>

lemma process_token_endian:
  "process_token past (if b then ''e'' else ''E'') TD = TD\<lparr>LittleEndian := b\<rparr>"
proof -
  have "getToken ''e'' '':'' = (''e'', [])" and "getToken ''E'' '':'' = (''E'', [])"
    by (simp_all add: getToken_def)
  then show ?thesis
    by (simp add: process_token_def)
qed

lemma process_token_pointer:
  "process_token past (pointer_token D) TD =
     TD\<lparr>PointerMemSize := PointerMemSize D, PointerABIAlign := PointerABIAlign D,
        PointerPrefAlign :=
          (if PointerPrefAlign D = 0 then PointerABIAlign D else PointerPrefAlign D)\<rparr>"
proof -
  let ?s1 = "itostr (int (unat (PointerMemSize D) * 8))"
  let ?s2 = "itostr (int (unat (PointerABIAlign D) * 8))"
  let ?s3 = "itostr (int (unat (PointerPrefAlign D) * 8))"
  have p1: "CHR '':'' \<notin> set ?s1" "?s1 \<noteq> []"
    by (simp_all add: itostr_plain)
  have p2: "CHR '':'' \<notin> set ?s2" "?s2 \<noteq> []"
    by (simp_all add: itostr_plain)
  have p3: "CHR '':'' \<notin> set ?s3" "?s3 \<noteq> []"
    by (simp_all add: itostr_plain)
  have "getToken (''p'' @ CHR '':'' # ?s1 @ CHR '':'' # ?s2 @ CHR '':'' # ?s3) '':''
          = (''p'', CHR '':'' # ?s1 @ CHR '':'' # ?s2 @ CHR '':'' # ?s3)"
    by (rule getToken_first) simp_all
  then have g0: "getToken (pointer_token D) '':''
          = (''p'', CHR '':'' # ?s1 @ CHR '':'' # ?s2 @ CHR '':'' # ?s3)"
    by (simp add: pointer_token_def)
  have g1: "getToken (CHR '':'' # ?s1 @ CHR '':'' # ?s2 @ CHR '':'' # ?s3) '':''
          = (?s1, CHR '':'' # ?s2 @ CHR '':'' # ?s3)"
    unfolding getToken_skip using p1 by (rule getToken_first)
  have g2: "getToken (CHR '':'' # ?s2 @ CHR '':'' # ?s3) '':'' = (?s2, CHR '':'' # ?s3)"
    unfolding getToken_skip using p2 by (rule getToken_first)
  have g3: "getToken (CHR '':'' # ?s3) '':'' = (?s3, [])"
    unfolding getToken_skip using p3 by (rule getToken_last)
  show ?thesis
    unfolding process_token_def g0 by (simp add: g1 g2 g3 read_uchar Let_def del: of_nat_mult)
qed

lemma align_type_of_char:
  "k \<noteq> INVALID_ALIGN \<Longrightarrow>
   AlignTypeEnum_char k \<in> set ''ivfa'' \<and> align_type_of (AlignTypeEnum_char k) = k"
  by (cases k) (simp_all add: align_type_of_def)

lemma process_token_alignment:
  assumes "c \<in> set ''ivfa''"
    and "getToken token '':'' = (c # p, token1)"
    and "getToken token1 '':'' = (a1, token2)"
    and "getToken token2 '':'' = (a2, token3)"
  shows "process_token past token TD =
     TD\<lparr>Alignments :=
          setAlignment past (align_type_of c) (to_uchar (c_div (atoi a1) 8))
            (if to_uchar (c_div (atoi a2) 8) = 0 then to_uchar (c_div (atoi a1) 8)
             else to_uchar (c_div (atoi a2) 8))
            (to_short (atoi p)) (Alignments TD)\<rparr>"
proof -
  consider "c = CHR ''i''" | "c = CHR ''v''" | "c = CHR ''f''" | "c = CHR ''a''"
    using assms(1) by auto
  then show ?thesis
    using assms(2-4)
    by cases (simp_all add: process_token_def align_type_of_def Let_def)
qed

lemma process_token_dump:
  assumes "AlignType e \<noteq> INVALID_ALIGN" and "0 \<le> sint (TypeBitWidth e)"
  shows "process_token past (dump e) TD =
     TD\<lparr>Alignments :=
          setAlignment past (AlignType e) (ABIAlign e)
            (if PrefAlign e = 0 then ABIAlign e else PrefAlign e)
            (TypeBitWidth e) (Alignments TD)\<rparr>"
proof -
  let ?c = "AlignTypeEnum_char (AlignType e)"
  let ?w = "itostr (sint (TypeBitWidth e))"
  let ?s1 = "itostr (int (unat (ABIAlign e) * 8))"
  let ?s2 = "itostr (int (unat (PrefAlign e) * 8))"
  from assms(1) have c: "?c \<in> set ''ivfa''" "align_type_of ?c = AlignType e"
    using align_type_of_char by blast+
  from assms(1) have cc: "?c \<noteq> CHR '':''"
    using AlignTypeEnum_char_plain by blast
  have pw: "CHR '':'' \<notin> set ?w"
    using assms(2) by (rule itostr_plain(2))
  have p1: "CHR '':'' \<notin> set ?s1" "?s1 \<noteq> []"
    by (simp_all add: itostr_plain)
  have p2: "CHR '':'' \<notin> set ?s2" "?s2 \<noteq> []"
    by (simp_all add: itostr_plain)
  have "getToken ((?c # ?w) @ CHR '':'' # ?s1 @ CHR '':'' # ?s2) '':''
          = (?c # ?w, CHR '':'' # ?s1 @ CHR '':'' # ?s2)"
    using pw cc by (intro getToken_first) simp_all
  then have g0: "getToken (dump e) '':'' = (?c # ?w, CHR '':'' # ?s1 @ CHR '':'' # ?s2)"
    by (simp add: dump_def)
  have g1: "getToken (CHR '':'' # ?s1 @ CHR '':'' # ?s2) '':'' = (?s1, CHR '':'' # ?s2)"
    unfolding getToken_skip using p1 by (rule getToken_first)
  have g2: "getToken (CHR '':'' # ?s2) '':'' = (?s2, [])"
    unfolding getToken_skip using p2 by (rule getToken_last)
  show ?thesis
    unfolding process_token_alignment [OF c(1) g0 g1 g2] c(2) read_uchar
      read_short [OF assms(2)]
    by (rule refl)
qed

subsection \<open>The descriptors that init builds\<close>

lemma has_entry_upsert: "has_entry xs k w \<Longrightarrow> has_entry (upsert e xs) k w"
  by (induction xs) (auto simp: has_entry_def)

lemma has_entry_upsert_same: "has_entry (upsert e xs) (AlignType e) (TypeBitWidth e)"
  by (induction xs) (auto simp: has_entry_def)

lemma list_all_upsert: "list_all P xs \<Longrightarrow> P e \<Longrightarrow> list_all P (upsert e xs)"
  using set_upsert_subset [of e xs] by (auto simp: list_all_iff)

lemma canonical_setAlignment:
  assumes blank: "\<forall>xs. AlignType (past xs) = INVALID_ALIGN"
    and "canonical TD" and "k \<noteq> INVALID_ALIGN" and "p = 0 \<longrightarrow> a = 0"
  shows "canonical (TD\<lparr>Alignments := setAlignment past k a p w (Alignments TD)\<rparr>)"
proof -
  let ?e = "TargetAlignElem_get k a p w"
  have s: "setAlignment past k a p w (Alignments TD) = upsert ?e (Alignments TD)"
    using blank assms(3) by (rule setAlignment_upsert)
  have "list_all (\<lambda>(k, a, p, w). has_entry (upsert ?e (Alignments TD)) k w) default_alignments"
    using assms(2) by (auto simp: canonical_def list_all_iff has_entry_upsert)
  moreover have "list_all (\<lambda>e. AlignType e \<noteq> INVALID_ALIGN \<and> (PrefAlign e = 0 \<longrightarrow> ABIAlign e = 0))
                   (upsert ?e (Alignments TD))"
    using assms(2-4) by (intro list_all_upsert) (simp_all add: canonical_def TargetAlignElem_get_def)
  ultimately show ?thesis
    using assms(2) by (simp add: canonical_def s sorted_upsert)
qed

lemma foldl_setAlignment_upsert:
  assumes "\<forall>xs. AlignType (past xs) = INVALID_ALIGN"
  shows "list_all (\<lambda>(k, a, p, w). k \<noteq> INVALID_ALIGN) ds \<Longrightarrow>
     foldl (\<lambda>A (k, a, p, w). setAlignment past k a p w A) A ds
       = foldl (\<lambda>A (k, a, p, w). upsert (TargetAlignElem_get k a p w) A) A ds"
  by (induction ds arbitrary: A) (auto simp: setAlignment_upsert [OF assms])

lemma default_alignments_valid:
  "list_all (\<lambda>(k, a, p, w). k \<noteq> INVALID_ALIGN) default_alignments"
  by (simp add: default_alignments_def)

lemma default_table:
  "foldl (\<lambda>A (k, a, p, w). upsert (TargetAlignElem_get k a p w) A) [] default_alignments =
        [TargetAlignElem_get AGGREGATE_ALIGN 0 0 0, TargetAlignElem_get FLOAT_ALIGN 4 4 32,
         TargetAlignElem_get FLOAT_ALIGN 0 8 64, TargetAlignElem_get INTEGER_ALIGN 1 1 1,
         TargetAlignElem_get INTEGER_ALIGN 1 1 8, TargetAlignElem_get INTEGER_ALIGN 2 2 16,
         TargetAlignElem_get INTEGER_ALIGN 4 4 32, TargetAlignElem_get INTEGER_ALIGN 0 8 64,
         TargetAlignElem_get PACKED_ALIGN 8 8 64, TargetAlignElem_get PACKED_ALIGN 16 16 128]"
  by code_simp

lemma set_defaults_blank:
  assumes "\<forall>xs. AlignType (past xs) = INVALID_ALIGN"
  shows "set_defaults past [] =
        [TargetAlignElem_get AGGREGATE_ALIGN 0 0 0, TargetAlignElem_get FLOAT_ALIGN 4 4 32,
         TargetAlignElem_get FLOAT_ALIGN 0 8 64, TargetAlignElem_get INTEGER_ALIGN 1 1 1,
         TargetAlignElem_get INTEGER_ALIGN 1 1 8, TargetAlignElem_get INTEGER_ALIGN 2 2 16,
         TargetAlignElem_get INTEGER_ALIGN 4 4 32, TargetAlignElem_get INTEGER_ALIGN 0 8 64,
         TargetAlignElem_get PACKED_ALIGN 8 8 64, TargetAlignElem_get PACKED_ALIGN 16 16 128]"
  unfolding set_defaults_def
    foldl_setAlignment_upsert [OF assms default_alignments_valid] default_table
  by (rule refl)

lemma default_table_canonical:
  "canonical \<lparr>LittleEndian = False, PointerMemSize = 8, PointerABIAlign = 8,
           PointerPrefAlign = 8, Alignments =
        [TargetAlignElem_get AGGREGATE_ALIGN 0 0 0, TargetAlignElem_get FLOAT_ALIGN 4 4 32,
         TargetAlignElem_get FLOAT_ALIGN 0 8 64, TargetAlignElem_get INTEGER_ALIGN 1 1 1,
         TargetAlignElem_get INTEGER_ALIGN 1 1 8, TargetAlignElem_get INTEGER_ALIGN 2 2 16,
         TargetAlignElem_get INTEGER_ALIGN 4 4 32, TargetAlignElem_get INTEGER_ALIGN 0 8 64,
         TargetAlignElem_get PACKED_ALIGN 8 8 64, TargetAlignElem_get PACKED_ALIGN 16 16 128]\<rparr>"
  by code_simp

lemma canonical_seed:
  assumes "\<forall>xs. AlignType (past xs) = INVALID_ALIGN"
  shows "canonical \<lparr>LittleEndian = False, PointerMemSize = 8, PointerABIAlign = 8,
           PointerPrefAlign = 8, Alignments = set_defaults past []\<rparr>"
  unfolding set_defaults_blank [OF assms] by (rule default_table_canonical)

lemma align_type_of_valid: "align_type_of c \<noteq> INVALID_ALIGN"
  by (simp add: align_type_of_def)

lemma canonical_process_token:
  assumes blank: "\<forall>xs. AlignType (past xs) = INVALID_ALIGN" and "canonical TD"
  shows "canonical (process_token past token TD)"
proof -
  obtain arg0 token1 where g0: "getToken token '':'' = (arg0, token1)"
    by (cases "getToken token '':''") auto
  obtain a1 token2 where g1: "getToken token1 '':'' = (a1, token2)"
    by (cases "getToken token1 '':''") auto
  obtain a2 token3 where g2: "getToken token2 '':'' = (a2, token3)"
    by (cases "getToken token2 '':''") auto
  obtain a3 token4 where g3: "getToken token3 '':'' = (a3, token4)"
    by (cases "getToken token3 '':''") auto
  show ?thesis
  proof (cases arg0)
    case Nil
    with g0 assms(2) show ?thesis
      by (simp add: process_token_def)
  next
    case (Cons c p)
    consider "c = CHR ''E'' \<or> c = CHR ''e''" | "c = CHR ''p''"
      | "c \<in> set ''ivfa''" | "c \<notin> set ''Eepivfa''"
      by auto
    then show ?thesis
    proof cases
      case 1
      with g0 Cons assms(2) show ?thesis
        by (auto simp: process_token_def canonical_def)
    next
      case 2
      with g0 g1 g2 g3 Cons assms(2) show ?thesis
        by (auto simp: process_token_def canonical_def Let_def)
    next
      case 3
      from g0 Cons have g0': "getToken token '':'' = (c # p, token1)"
        by simp
      show ?thesis
        unfolding process_token_alignment [OF 3 g0' g1 g2]
        using blank assms(2) align_type_of_valid by (rule canonical_setAlignment) simp
    next
      case 4
      with g0 Cons assms(2) show ?thesis
        by (simp add: process_token_def)
    qed
  qed
qed

lemma canonical_foldl:
  assumes "\<forall>xs. AlignType (past xs) = INVALID_ALIGN"
  shows "canonical TD \<Longrightarrow>
   canonical (foldl (\<lambda>TD token. process_token past token TD) TD ts)"
  by (induction ts arbitrary: TD) (simp_all add: canonical_process_token [OF assms])

lemma canonical_cap_by_pointer:
  assumes blank: "\<forall>xs. AlignType (past xs) = INVALID_ALIGN" and "canonical TD"
  shows "canonical (cap_by_pointer past TD)"
proof -
  have set: "canonical (TD'\<lparr>Alignments := setAlignment past k (PointerMemSize TD')
                 (PointerMemSize TD') 64 (Alignments TD')\<rparr>)"
    if "canonical TD'" and "k \<noteq> INVALID_ALIGN" for TD' k
    using blank that by (rule canonical_setAlignment) simp
  from assms(2) show ?thesis
    by (simp add: cap_by_pointer_def Let_def set)
qed

lemma canonical_init:
  assumes "\<forall>xs. AlignType (past xs) = INVALID_ALIGN"
  shows "canonical (init past s)"
  unfolding init_def parse_loop_tokens
  by (intro canonical_cap_by_pointer canonical_foldl canonical_seed assms)

subsection \<open>Looking up an entry of a sorted table\<close>

lemma hd_dropWhile_entry:
  "sorted_wrt elem_less xs \<Longrightarrow> e \<in> set xs \<Longrightarrow>
   hd (dropWhile (\<lambda>x. elem_less x e) xs) = e"
proof (induction xs)
  case Nil
  then show ?case by simp
next
  case (Cons x xs)
  show ?case
  proof (cases "x = e")
    case True
    then show ?thesis
      by (simp add: elem_less_irrefl)
  next
    case False
    with Cons.prems have "e \<in> set xs" and "elem_less x e"
      by auto
    with Cons show ?thesis
      by simp
  qed
qed

lemma getAlignment_entry:
  assumes "sorted_wrt elem_less xs" and "e \<in> set xs"
    and "AlignType e = k" and "TypeBitWidth e = w"
  shows "getAlignment past xs k w = e"
proof -
  let ?key = "TargetAlignElem_get k 0 0 w"
  have same: "elem_less x ?key = elem_less x e" for x
    using assms(3,4) by (simp add: elem_less_def TargetAlignElem_get_def)
  then have not_less: "\<not> elem_less e ?key"
    by (simp add: elem_less_irrefl)
  from deref_lower_bound(2) [OF assms(2) not_less, of past]
  have "getAlignment past xs k w = hd (dropWhile (\<lambda>x. elem_less x ?key) xs)"
    by (simp add: getAlignment_def)
  also have "\<dots> = hd (dropWhile (\<lambda>x. elem_less x e) xs)"
    by (simp add: same)
  also have "\<dots> = e"
    using assms(1,2) by (rule hd_dropWhile_entry)
  finally show ?thesis .
qed

lemma has_entry_obtain:
  assumes "has_entry xs k w"
  obtains e where "e \<in> set xs" and "AlignType e = k" and "TypeBitWidth e = w"
  using assms by (auto simp: has_entry_def list_ex_iff)

lemma upsert_member:
  "sorted_wrt elem_less xs \<Longrightarrow> e \<in> set xs \<Longrightarrow> upsert e xs = xs"
proof (induction xs)
  case Nil
  then show ?case by simp
next
  case (Cons x xs)
  show ?case
  proof (cases "x = e")
    case True
    then show ?thesis
      by (simp add: elem_less_irrefl)
  next
    case False
    with Cons.prems have "e \<in> set xs" and "elem_less x e"
      by auto
    with Cons show ?thesis
      by simp
  qed
qed

text \<open>One of the two steps at the end of \<open>init\<close>, on a sorted table that has the entry.\<close>

lemma cap_step:
  fixes past :: past_end and P :: uchar
  assumes "sorted_wrt elem_less xs" and "has_entry xs k w"
  defines "xs' \<equiv> (if ABIAlign (getAlignment past xs k w) = 0
                   then upsert (TargetAlignElem_get k P P w) xs else xs)"
  shows "sorted_wrt elem_less xs'"
    and "getAlignment past xs' k w \<in> set xs'"
    and "ABIAlign (getAlignment past xs' k w) = 0 \<longrightarrow>
           getAlignment past xs' k w = TargetAlignElem_get k P P w"
proof -
  from assms(2) obtain e where e: "e \<in> set xs" "AlignType e = k" "TypeBitWidth e = w"
    by (rule has_entry_obtain)
  have l: "getAlignment past xs k w = e"
    using assms(1) e by (rule getAlignment_entry)
  let ?g = "TargetAlignElem_get k P P w"
  show s: "sorted_wrt elem_less xs'"
    using assms(1) by (simp add: xs'_def sorted_upsert)
  have g: "getAlignment past (upsert ?g xs) k w = ?g"
    using assms(1) by (intro getAlignment_entry sorted_upsert in_set_upsert)
       (simp_all add: TargetAlignElem_get_def)
  from l g e show "getAlignment past xs' k w \<in> set xs'"
    by (simp add: xs'_def in_set_upsert)
  from l g show "ABIAlign (getAlignment past xs' k w) = 0 \<longrightarrow>
           getAlignment past xs' k w = TargetAlignElem_get k P P w"
    by (simp add: xs'_def)
qed

lemma getAlignment_upsert_other:
  assumes "sorted_wrt elem_less xs" and "has_entry xs k w"
    and "\<not> (AlignType g = k \<and> TypeBitWidth g = w)"
  shows "getAlignment past (upsert g xs) k w = getAlignment past xs k w"
proof -
  from assms(2) obtain e where e: "e \<in> set xs" "AlignType e = k" "TypeBitWidth e = w"
    by (rule has_entry_obtain)
  have "e \<in> set (upsert g xs)"
    using assms(3) e by (simp add: set_upsert [OF assms(1)]) auto
  then have "getAlignment past (upsert g xs) k w = e"
    using assms(1) e(2,3) by (intro getAlignment_entry sorted_upsert)
  moreover have "getAlignment past xs k w = e"
    using assms(1) e by (rule getAlignment_entry)
  ultimately show ?thesis by simp
qed

lemma cap_by_pointer_cap_entry:
  assumes "\<forall>xs. AlignType (past xs) = INVALID_ALIGN"
  shows "cap_by_pointer past TD =
     TD\<lparr>Alignments :=
          cap_entry past (PointerMemSize TD) FLOAT_ALIGN
            (cap_entry past (PointerMemSize TD) INTEGER_ALIGN (Alignments TD))\<rparr>"
  by (simp add: cap_by_pointer_def cap_entry_def Let_def setAlignment_upsert [OF assms])

lemma has_entry_cap_entry: "has_entry xs k w \<Longrightarrow> has_entry (cap_entry past P k' xs) k w"
  by (simp add: cap_entry_def has_entry_upsert)

lemma sorted_cap_entry: "sorted_wrt elem_less xs \<Longrightarrow> sorted_wrt elem_less (cap_entry past P k xs)"
  by (simp add: cap_entry_def sorted_upsert)

lemma cap_entry_fixed:
  assumes "sorted_wrt elem_less xs"
    and "getAlignment past xs k 64 \<in> set xs"
    and "ABIAlign (getAlignment past xs k 64) = 0 \<longrightarrow>
           getAlignment past xs k 64 = TargetAlignElem_get k P P 64"
  shows "cap_entry past P k xs = xs"
proof (cases "ABIAlign (getAlignment past xs k 64) = 0")
  case True
  with assms(2,3) have "TargetAlignElem_get k P P 64 \<in> set xs"
    by simp
  with assms(1) have "upsert (TargetAlignElem_get k P P 64) xs = xs"
    by (rule upsert_member)
  with True show ?thesis
    by (simp add: cap_entry_def)
next
  case False
  then show ?thesis
    by (simp add: cap_entry_def)
qed

lemma cap_entry_idem:
  assumes "sorted_wrt elem_less xs" and "has_entry xs k 64"
  shows "cap_entry past P k (cap_entry past P k xs) = cap_entry past P k xs"
  unfolding cap_entry_def [of past P k xs]
  by (intro cap_entry_fixed cap_step assms)

lemma cap_entry_other:
  assumes "sorted_wrt elem_less xs" and "has_entry xs k 64" and "k \<noteq> k'"
    and "cap_entry past P k xs = xs"
  shows "cap_entry past P k (cap_entry past P k' xs) = cap_entry past P k' xs"
proof (cases "ABIAlign (getAlignment past xs k' 64) = 0")
  case False
  with assms(4) show ?thesis
    by (simp add: cap_entry_def [of past P k' xs])
next
  case True
  let ?g = "TargetAlignElem_get k' P P 64"
  have same: "getAlignment past (upsert ?g xs) k 64 = getAlignment past xs k 64"
    using assms(1,2,3) by (intro getAlignment_upsert_other) (simp_all add: TargetAlignElem_get_def)
  show ?thesis
  proof (cases "ABIAlign (getAlignment past xs k 64) = 0")
    case no: False
    with True same show ?thesis
      by (simp add: cap_entry_def)
  next
    case yes: True
    with assms(4) have "upsert (TargetAlignElem_get k P P 64) xs = xs"
      by (simp add: cap_entry_def)
    then have "TargetAlignElem_get k P P 64 \<in> set xs"
      using in_set_upsert [of "TargetAlignElem_get k P P 64" xs] by simp
    then have "TargetAlignElem_get k P P 64 \<in> set (upsert ?g xs)"
      using assms(3) by (simp add: set_upsert [OF assms(1)] TargetAlignElem_get_def)
    with assms(1) have "upsert (TargetAlignElem_get k P P 64) (upsert ?g xs) = upsert ?g xs"
      by (intro upsert_member sorted_upsert)
    with True show ?thesis
      by (simp add: cap_entry_def)
  qed
qed

lemma cap_by_pointer_idem:
  assumes blank: "\<forall>xs. AlignType (past xs) = INVALID_ALIGN" and "canonical TD"
  shows "cap_by_pointer past (cap_by_pointer past TD) = cap_by_pointer past TD"
proof -
  let ?P = "PointerMemSize TD"
  let ?xs = "Alignments TD"
  let ?xs1 = "cap_entry past ?P INTEGER_ALIGN ?xs"
  let ?xs2 = "cap_entry past ?P FLOAT_ALIGN ?xs1"
  from assms(2) have sorted: "sorted_wrt elem_less ?xs"
    and hi: "has_entry ?xs INTEGER_ALIGN 64" and hf: "has_entry ?xs FLOAT_ALIGN 64"
    by (simp_all add: canonical_def default_alignments_def)
  have s1: "sorted_wrt elem_less ?xs1"
    using sorted by (rule sorted_cap_entry)
  have i1: "cap_entry past ?P INTEGER_ALIGN ?xs1 = ?xs1"
    using sorted hi by (rule cap_entry_idem)
  have "cap_entry past ?P INTEGER_ALIGN ?xs2 = ?xs2"
    using s1 has_entry_cap_entry [OF hi] _ i1 by (rule cap_entry_other) simp
  moreover have "cap_entry past ?P FLOAT_ALIGN ?xs2 = ?xs2"
    using s1 has_entry_cap_entry [OF hf] by (rule cap_entry_idem)
  ultimately show ?thesis
    by (simp add: cap_by_pointer_cap_entry [OF blank])
qed

subsection \<open>Entering the records of a table again\<close>

lemma sorted_foldl_upsert:
  "sorted_wrt elem_less S \<Longrightarrow> sorted_wrt elem_less (foldl (\<lambda>xs e. upsert e xs) S T)"
  by (induction T arbitrary: S) (simp_all add: sorted_upsert)

lemma set_foldl_upsert:
  "sorted_wrt elem_less S \<Longrightarrow> sorted_wrt elem_less T \<Longrightarrow>
   set (foldl (\<lambda>xs e. upsert e xs) S T) =
     {x \<in> set S. \<forall>e \<in> set T. \<not> (AlignType x = AlignType e \<and> TypeBitWidth x = TypeBitWidth e)}
       \<union> set T"
proof (induction T arbitrary: S)
  case Nil
  then show ?case by simp
next
  case (Cons e T)
  have differs: "\<not> (AlignType e = AlignType t \<and> TypeBitWidth e = TypeBitWidth t)"
    if "t \<in> set T" for t
  proof -
    from that Cons.prems(2) have "elem_less e t" by simp
    then show ?thesis by (auto simp: elem_less_def)
  qed
  from Cons.prems have "sorted_wrt elem_less (upsert e S)" and "sorted_wrt elem_less T"
    by (simp_all add: sorted_upsert)
  then have "set (foldl (\<lambda>xs e. upsert e xs) (upsert e S) T) =
     {x \<in> set (upsert e S).
        \<forall>t \<in> set T. \<not> (AlignType x = AlignType t \<and> TypeBitWidth x = TypeBitWidth t)}
       \<union> set T"
    by (rule Cons.IH)
  with differs show ?case
    by (auto simp: set_upsert [OF Cons.prems(1)])
qed

lemma foldl_upsert_rebuild:
  assumes "sorted_wrt elem_less S" and "sorted_wrt elem_less T"
    and "\<forall>x \<in> set S. has_entry T (AlignType x) (TypeBitWidth x)"
  shows "foldl (\<lambda>xs e. upsert e xs) S T = T"
proof -
  have empty: "{x \<in> set S. \<forall>e \<in> set T.
           \<not> (AlignType x = AlignType e \<and> TypeBitWidth x = TypeBitWidth e)} = {}"
  proof -
    have False
      if "x \<in> set S"
        and "\<forall>e \<in> set T. \<not> (AlignType x = AlignType e \<and> TypeBitWidth x = TypeBitWidth e)"
      for x
    proof -
      from that(1) assms(3) have "has_entry T (AlignType x) (TypeBitWidth x)"
        by simp
      then obtain e where "e \<in> set T" "AlignType e = AlignType x"
          "TypeBitWidth e = TypeBitWidth x"
        by (rule has_entry_obtain)
      with that(2) show False
        by auto
    qed
    then show ?thesis by blast
  qed
  have "set (foldl (\<lambda>xs e. upsert e xs) S T) = set T"
    unfolding set_foldl_upsert [OF assms(1,2)] empty by simp
  with sorted_foldl_upsert [OF assms(1)] assms(2) show ?thesis
    by (rule sorted_wrt_elem_less_unique)
qed

subsection \<open>Reading the printed form\<close>

lemma foldl_process_token_dump:
  assumes "\<forall>xs. AlignType (past xs) = INVALID_ALIGN"
  shows "list_all (\<lambda>e. AlignType e \<noteq> INVALID_ALIGN \<and> (PrefAlign e = 0 \<longrightarrow> ABIAlign e = 0)
                    \<and> 0 \<le> sint (TypeBitWidth e)) T \<Longrightarrow>
     foldl (\<lambda>TD token. process_token past token TD) TD (map dump T) =
       TD\<lparr>Alignments := foldl (\<lambda>xs e. upsert e xs) (Alignments TD) T\<rparr>"
proof (induction T arbitrary: TD)
  case Nil
  then show ?case by simp
next
  case (Cons e T)
  then have e: "AlignType e \<noteq> INVALID_ALIGN" "PrefAlign e = 0 \<longrightarrow> ABIAlign e = 0"
      "0 \<le> sint (TypeBitWidth e)"
    by simp_all
  have rec: "TargetAlignElem_get (AlignType e) (ABIAlign e)
               (if PrefAlign e = 0 then ABIAlign e else PrefAlign e) (TypeBitWidth e) = e"
    using e(2) by (simp add: TargetAlignElem_get_def)
  have "process_token past (dump e) TD = TD\<lparr>Alignments := upsert e (Alignments TD)\<rparr>"
    unfolding process_token_dump [OF e(1,3)] setAlignment_upsert [OF assms e(1)] rec
    by (rule refl)
  with Cons show ?case
    by simp
qed

lemma seed_entries:
  assumes "\<forall>xs. AlignType (past xs) = INVALID_ALIGN" and "canonical D"
  shows "\<forall>x \<in> set (set_defaults past []).
           has_entry (Alignments D) (AlignType x) (TypeBitWidth x)"
  using assms(2) unfolding set_defaults_blank [OF assms(1)]
  by (simp add: canonical_def default_alignments_def TargetAlignElem_get_def)

lemma parse_printed:
  assumes blank: "\<forall>xs. AlignType (past xs) = INVALID_ALIGN"
    and "canonical D"
    and nonneg: "list_all (\<lambda>e. 0 \<le> sint (TypeBitWidth e)) (Alignments D)"
  shows "parse_loop past (getStringRepresentation D)
           \<lparr>LittleEndian = False, PointerMemSize = 8, PointerABIAlign = 8,
            PointerPrefAlign = 8, Alignments = set_defaults past []\<rparr> = D"
proof -
  let ?seed = "\<lparr>LittleEndian = False, PointerMemSize = 8, PointerABIAlign = 8,
            PointerPrefAlign = 8, Alignments = set_defaults past []\<rparr>"
  let ?T = "Alignments D"
  from assms(2) have inv: "list_all (\<lambda>e. AlignType e \<noteq> INVALID_ALIGN
                              \<and> (PrefAlign e = 0 \<longrightarrow> ABIAlign e = 0)) ?T"
    and sortedT: "sorted_wrt elem_less ?T"
    and ptr: "PointerPrefAlign D = 0 \<longrightarrow> PointerABIAlign D = 0"
    by (simp_all add: canonical_def)
  from inv nonneg have all: "list_all (\<lambda>e. AlignType e \<noteq> INVALID_ALIGN
        \<and> (PrefAlign e = 0 \<longrightarrow> ABIAlign e = 0) \<and> 0 \<le> sint (TypeBitWidth e)) ?T"
    by (auto simp: list_all_iff)
  then have "\<forall>e \<in> set ?T. AlignType e \<noteq> INVALID_ALIGN \<and> 0 \<le> sint (TypeBitWidth e)"
    by (auto simp: list_all_iff)
  then have toks: "tokens (getStringRepresentation D) =
           (if LittleEndian D then ''e'' else ''E'') # pointer_token D # map dump ?T"
    by (rule tokens_getStringRepresentation)
  let ?TD2 = "\<lparr>LittleEndian = LittleEndian D, PointerMemSize = PointerMemSize D,
               PointerABIAlign = PointerABIAlign D, PointerPrefAlign = PointerPrefAlign D,
               Alignments = set_defaults past []\<rparr>"
  have two: "process_token past (pointer_token D)
               (process_token past (if LittleEndian D then ''e'' else ''E'') ?seed) = ?TD2"
    using ptr by (simp add: process_token_endian process_token_pointer)
  have sortedS: "sorted_wrt elem_less (set_defaults past [])"
    using canonical_seed [OF blank] by (simp add: canonical_def)
  have "foldl (\<lambda>xs e. upsert e xs) (set_defaults past []) ?T = ?T"
    using sortedS sortedT seed_entries [OF blank assms(2)] by (rule foldl_upsert_rebuild)
  then have "foldl (\<lambda>TD token. process_token past token TD) ?TD2 (map dump ?T) = D"
    by (simp add: foldl_process_token_dump [OF blank all])
  then show ?thesis
    unfolding parse_loop_tokens toks by (simp only: foldl_Cons two)
qed

subsection \<open>A bit width that does not fit a short\<close>

lemma blank_past_blank: "\<forall>xs. AlignType (blank_past xs) = INVALID_ALIGN"
  by (simp add: blank_past_def InvalidAlignmentElem_def TargetAlignElem_get_def)

lemma wide_atoi: "atoi ''40000'' = 40000"
  by (simp add: atoi_def isspace_def isdigit_def digit_of_def)

lemma wide_tokens: "tokens ''i40000:8:8'' = [''i40000:8:8'']"
  by (rule tokens_front(2)) simp_all

lemma wide_token: "process_token blank_past ''i40000:8:8'' TD =
   TD\<lparr>Alignments := upsert (TargetAlignElem_get INTEGER_ALIGN 1 1 (to_short 40000)) (Alignments TD)\<rparr>"
proof -
  have g0: "getToken ''i40000:8:8'' '':'' = (CHR ''i'' # ''40000'', '':8:8'')"
    by (simp add: getToken_def)
  have g1: "getToken '':8:8'' '':'' = (''8'', '':8'')"
    by (simp add: getToken_def)
  have g2: "getToken '':8'' '':'' = (''8'', [])"
    by (simp add: getToken_def)
  have 8: "to_uchar (c_div (atoi ''8'') 8) = 1"
    by (simp add: atoi_def isspace_def isdigit_def digit_of_def c_div_def to_uchar_def)
  have i: "CHR ''i'' \<in> set ''ivfa''"
    by simp
  show ?thesis
    unfolding process_token_alignment [OF i g0 g1 g2] 8 wide_atoi
    by (simp add: align_type_of_def setAlignment_upsert [OF blank_past_blank])
qed

lemma wide_upsert:
  "upsert (TargetAlignElem_get INTEGER_ALIGN 1 1 (to_short 40000))
     [TargetAlignElem_get AGGREGATE_ALIGN 0 0 0, TargetAlignElem_get FLOAT_ALIGN 4 4 32,
      TargetAlignElem_get FLOAT_ALIGN 0 8 64, TargetAlignElem_get INTEGER_ALIGN 1 1 1,
      TargetAlignElem_get INTEGER_ALIGN 1 1 8, TargetAlignElem_get INTEGER_ALIGN 2 2 16,
      TargetAlignElem_get INTEGER_ALIGN 4 4 32, TargetAlignElem_get INTEGER_ALIGN 0 8 64,
      TargetAlignElem_get PACKED_ALIGN 8 8 64, TargetAlignElem_get PACKED_ALIGN 16 16 128]
   = [TargetAlignElem_get AGGREGATE_ALIGN 0 0 0, TargetAlignElem_get FLOAT_ALIGN 4 4 32,
      TargetAlignElem_get FLOAT_ALIGN 0 8 64, TargetAlignElem_get INTEGER_ALIGN 1 1 40000,
      TargetAlignElem_get INTEGER_ALIGN 1 1 1,
      TargetAlignElem_get INTEGER_ALIGN 1 1 8, TargetAlignElem_get INTEGER_ALIGN 2 2 16,
      TargetAlignElem_get INTEGER_ALIGN 4 4 32, TargetAlignElem_get INTEGER_ALIGN 0 8 64,
      TargetAlignElem_get PACKED_ALIGN 8 8 64, TargetAlignElem_get PACKED_ALIGN 16 16 128]"
  by code_simp

lemma wide_cap:
  "cap_entry blank_past 8 FLOAT_ALIGN (cap_entry blank_past 8 INTEGER_ALIGN
     [TargetAlignElem_get AGGREGATE_ALIGN 0 0 0, TargetAlignElem_get FLOAT_ALIGN 4 4 32,
      TargetAlignElem_get FLOAT_ALIGN 0 8 64, TargetAlignElem_get INTEGER_ALIGN 1 1 40000,
      TargetAlignElem_get INTEGER_ALIGN 1 1 1,
      TargetAlignElem_get INTEGER_ALIGN 1 1 8, TargetAlignElem_get INTEGER_ALIGN 2 2 16,
      TargetAlignElem_get INTEGER_ALIGN 4 4 32, TargetAlignElem_get INTEGER_ALIGN 0 8 64,
      TargetAlignElem_get PACKED_ALIGN 8 8 64, TargetAlignElem_get PACKED_ALIGN 16 16 128])
   = [TargetAlignElem_get AGGREGATE_ALIGN 0 0 0, TargetAlignElem_get FLOAT_ALIGN 4 4 32,
      TargetAlignElem_get FLOAT_ALIGN 8 8 64, TargetAlignElem_get INTEGER_ALIGN 1 1 40000,
      TargetAlignElem_get INTEGER_ALIGN 1 1 1,
      TargetAlignElem_get INTEGER_ALIGN 1 1 8, TargetAlignElem_get INTEGER_ALIGN 2 2 16,
      TargetAlignElem_get INTEGER_ALIGN 4 4 32, TargetAlignElem_get INTEGER_ALIGN 8 8 64,
      TargetAlignElem_get PACKED_ALIGN 8 8 64, TargetAlignElem_get PACKED_ALIGN 16 16 128]"
  by code_simp

lemma wide_init:
  "init blank_past ''i40000:8:8'' =
     \<lparr>LittleEndian = False, PointerMemSize = 8, PointerABIAlign = 8, PointerPrefAlign = 8,
      Alignments =
        [TargetAlignElem_get AGGREGATE_ALIGN 0 0 0, TargetAlignElem_get FLOAT_ALIGN 4 4 32,
         TargetAlignElem_get FLOAT_ALIGN 8 8 64, TargetAlignElem_get INTEGER_ALIGN 1 1 40000,
         TargetAlignElem_get INTEGER_ALIGN 1 1 1,
         TargetAlignElem_get INTEGER_ALIGN 1 1 8, TargetAlignElem_get INTEGER_ALIGN 2 2 16,
         TargetAlignElem_get INTEGER_ALIGN 4 4 32, TargetAlignElem_get INTEGER_ALIGN 8 8 64,
         TargetAlignElem_get PACKED_ALIGN 8 8 64, TargetAlignElem_get PACKED_ALIGN 16 16 128]\<rparr>"
proof -
  have "parse_loop blank_past ''i40000:8:8''
          \<lparr>LittleEndian = False, PointerMemSize = 8, PointerABIAlign = 8,
           PointerPrefAlign = 8, Alignments = set_defaults blank_past []\<rparr> =
        \<lparr>LittleEndian = False, PointerMemSize = 8, PointerABIAlign = 8,
           PointerPrefAlign = 8, Alignments =
             upsert (TargetAlignElem_get INTEGER_ALIGN 1 1 (to_short 40000))
               (set_defaults blank_past [])\<rparr>"
    unfolding parse_loop_tokens wide_tokens by (simp add: wide_token)
  then show ?thesis
    unfolding init_def cap_by_pointer_cap_entry [OF blank_past_blank]
      set_defaults_blank [OF blank_past_blank] wide_upsert
    by (simp add: wide_cap)
qed

lemma wide_printed:
  "getStringRepresentation (init blank_past ''i40000:8:8'') =
  ''E-p:64:64:64-a0:0:0-f32:32:32-f64:64:64-i-25536:8:8-i1:8:8-i8:8:8-i16:16:16-i32:32:32-i64:64:64-v64:64:64-v128:128:128''"
  unfolding wide_init
  by (simp add: getStringRepresentation_def dump_def TargetAlignElem_get_def itostr_def
      utostr.simps digit_char_def)

lemma wide_reparsed:
  "Alignments (init blank_past
  ''E-p:64:64:64-a0:0:0-f32:32:32-f64:64:64-i-25536:8:8-i1:8:8-i8:8:8-i16:16:16-i32:32:32-i64:64:64-v64:64:64-v128:128:128'') ! 3
   = TargetAlignElem_get INTEGER_ALIGN 0 0 0"
  by code_simp

text \<open>
  C4, as stated, fails when a bit width does not fit a \<open>short\<close>: the width 40000 of the
  token \<open>i40000:8:8\<close> is stored as \<open>- 25536\<close> and printed with a minus sign, which
  cuts the printed token in two when it is read again. In the place of that record
  the table then holds the one for an integer of width 0.
\<close>

theorem roundtrip_counterexample:
  "init blank_past (getStringRepresentation (init blank_past ''i40000:8:8''))
     \<noteq> init blank_past ''i40000:8:8''"
proof
  assume "init blank_past (getStringRepresentation (init blank_past ''i40000:8:8''))
            = init blank_past ''i40000:8:8''"
  then have "Alignments (init blank_past (getStringRepresentation (init blank_past ''i40000:8:8''))) ! 3
               = Alignments (init blank_past ''i40000:8:8'') ! 3"
    by (rule arg_cong)
  then have "TargetAlignElem_get INTEGER_ALIGN 0 0 0 = TargetAlignElem_get INTEGER_ALIGN 1 1 40000"
    unfolding wide_printed wide_reparsed unfolding wide_init by simp
  then show False
    by (simp add: TargetAlignElem_get_def)
qed

text \<open>
  C4, amended: when no read behind the table finds a key, every descriptor that
  \<open>init\<close> builds from a configuration string and whose table holds no negative bit
  width is read back from its printed form: endianness, pointer size and
  alignments, and the alignment table are the same.
\<close>

theorem roundtrip:
  assumes "\<forall>xs. AlignType (past xs) = INVALID_ALIGN"
    and "list_all (\<lambda>e. 0 \<le> sint (TypeBitWidth e)) (Alignments (init past s))"
  shows "init past (getStringRepresentation (init past s)) = init past s"
proof -
  let ?seed = "\<lparr>LittleEndian = False, PointerMemSize = 8, PointerABIAlign = 8,
            PointerPrefAlign = 8, Alignments = set_defaults past []\<rparr>"
  have c: "canonical (init past s)"
    using assms(1) by (rule canonical_init)
  have "parse_loop past (getStringRepresentation (init past s)) ?seed = init past s"
    using assms(1) c assms(2) by (rule parse_printed)
  then have "init past (getStringRepresentation (init past s))
               = cap_by_pointer past (init past s)"
    by (simp add: init_def [of past "getStringRepresentation (init past s)"])
  also have "\<dots> = cap_by_pointer past (cap_by_pointer past (parse_loop past s ?seed))"
    by (simp add: init_def)
  also have "\<dots> = cap_by_pointer past (parse_loop past s ?seed)"
    using assms(1)
    by (intro cap_by_pointer_idem) (simp_all add: parse_loop_tokens canonical_foldl canonical_seed)
  finally show ?thesis
    by (simp add: init_def)
qed

theorem roundtrip_witness:
  "init blank_past (getStringRepresentation (init blank_past ''e-p:32:32:32-i128:64:64''))
     = init blank_past ''e-p:32:32:32-i128:64:64''"
proof (rule roundtrip)
  show "\<forall>xs. AlignType (blank_past xs) = INVALID_ALIGN"
    by (simp add: blank_past_def InvalidAlignmentElem_def TargetAlignElem_get_def)
  show "list_all (\<lambda>e. 0 \<le> sint (TypeBitWidth e))
          (Alignments (init blank_past ''e-p:32:32:32-i128:64:64''))"
    by code_simp
qed

end
